theory Spec2Isabelle
  imports Complex_Main "HOL-Library.Sublist"
begin

section \<open>Google Docs request objects (docs_v1.Schema$Request)\<close>

text \<open>
  Only the parts of the request objects that DocsService.ts and
  markdownToDocsRequests.ts build or inspect are represented. Every optional
  property of the TypeScript objects is an \<open>option\<close>; \<open>None\<close> stands for
  \<open>undefined\<close> (and \<open>null\<close>). Indices are JavaScript numbers that hold
  integers, hence \<open>int\<close>. Strings are lists of characters.
\<close>

record Range =
  range_tabId :: "string option"
  startIndex :: "int option"
  endIndex :: "int option"

record Location =
  location_tabId :: "string option"
  index :: "int option"

record RgbColor =
  red :: rat
  green :: rat
  blue :: rat

record WeightedFontFamily =
  fontFamily :: string
  weight :: nat

record TextStyle =
  bold :: "bool option"
  italic :: "bool option"
  weightedFontFamily :: "WeightedFontFamily option"
  backgroundColor :: "RgbColor option"
  link :: "string option"
  foregroundColor :: "RgbColor option"
  underline :: "bool option"

record DeleteContentRangeRequest =
  dcr_range :: Range

record InsertTextRequest =
  location :: "Location option"
  ins_text :: string

record UpdateTextStyleRequest =
  uts_range :: "Range option"
  textStyle :: TextStyle
  uts_fields :: string

record UpdateParagraphStyleRequest =
  namedStyleType :: string
  ups_range :: "Range option"
  ups_fields :: string

record Request =
  deleteContentRange :: "DeleteContentRangeRequest option"
  insertText :: "InsertTextRequest option"
  updateTextStyle :: "UpdateTextStyleRequest option"
  updateParagraphStyle :: "UpdateParagraphStyleRequest option"

definition emptyRequest :: Request where
  "emptyRequest = \<lparr>deleteContentRange = None, insertText = None,
     updateTextStyle = None, updateParagraphStyle = None\<rparr>"

section \<open>Document content and text extraction (DocsService.ts)\<close>

text \<open>
  A structural element is a paragraph (its elements carry an optional
  \<open>textRun.content\<close>), a table (rows of cells of structural elements), or
  anything else. An absent array (\<open>elements?\<close>, \<open>tableRows?\<close>,
  \<open>tableCells?\<close>, \<open>content?\<close>) is iterated zero times by the source and
  is represented by the empty list.
\<close>

datatype StructuralElement =
    Paragraph "string option list"
  | Table "StructuralElement list list list"
  | OtherElement

fun readStructuralElement :: "StructuralElement \<Rightarrow> string" where
  "readStructuralElement (Paragraph elements) =
     concat (map (\<lambda>pElement. case pElement of None \<Rightarrow> [] | Some c \<Rightarrow> c) elements)"
| "readStructuralElement (Table tableRows) =
     concat (map (\<lambda>row. concat (map (\<lambda>cell.
        concat (map readStructuralElement cell)) row)) tableRows)"
| "readStructuralElement OtherElement = []"

definition getFullDocumentText :: "StructuralElement list option \<Rightarrow> string" where
  "getFullDocumentText content =
     (case content of None \<Rightarrow> [] | Some els \<Rightarrow> concat (map readStructuralElement els))"

section \<open>The text-replacement planner (DocsService.\_generateReplacementRequests)\<close>

text \<open>
  \<open>String.prototype.indexOf(searchString, position)\<close>: the least index
  \<open>k\<close> with \<open>min position (length s) \<le> k\<close> at which \<open>searchString\<close> occurs
  in \<open>s\<close>; \<open>None\<close> stands for the result \<open>-1\<close>. For the empty search
  string this is \<open>min position (length s)\<close>, as in ECMAScript.
\<close>

definition indexOf :: "string \<Rightarrow> string \<Rightarrow> nat \<Rightarrow> nat option" where
  "indexOf s searchString position =
     List.find (\<lambda>k. prefix searchString (drop k s))
       [min position (length s) ..< Suc (length s)]"

text \<open>
  The \<open>while\<close> loop that collects the occurrences. It need not terminate,
  so it is a partial function: \<open>None\<close> means that the loop runs forever.
\<close>

partial_function (option) findOccurrences ::
  "string \<Rightarrow> string \<Rightarrow> nat \<Rightarrow> int list \<Rightarrow> int list option" where
  "findOccurrences documentText findText searchIndex occurrences =
     (case indexOf documentText findText searchIndex of
        None \<Rightarrow> Some occurrences
      | Some k \<Rightarrow>
          findOccurrences documentText findText (k + length findText)
            (occurrences @ [int k + 1]))"

definition deleteRequest :: "string option \<Rightarrow> string \<Rightarrow> int \<Rightarrow> Request" where
  "deleteRequest tabId findText adjustedPosition =
     emptyRequest\<lparr>deleteContentRange := Some \<lparr>dcr_range =
       \<lparr>range_tabId = tabId, startIndex = Some adjustedPosition,
        endIndex = Some (adjustedPosition + int (length findText))\<rparr>\<rparr>\<rparr>"

definition insertRequest :: "string option \<Rightarrow> string \<Rightarrow> int \<Rightarrow> Request" where
  "insertRequest tabId processedText adjustedPosition =
     emptyRequest\<lparr>insertText := Some
       \<lparr>location = Some \<lparr>location_tabId = tabId, index = Some adjustedPosition\<rparr>,
        ins_text = processedText\<rparr>\<rparr>"

text \<open>\<open>range?.startIndex || 0\<close>: an absent range or index counts as 0.\<close>

definition startIndexOr0 :: "Range option \<Rightarrow> int" where
  "startIndexOr0 r = (case r of None \<Rightarrow> 0 | Some rg \<Rightarrow>
     (case startIndex rg of None \<Rightarrow> 0 | Some i \<Rightarrow> i))"

definition endIndexOr0 :: "Range option \<Rightarrow> int" where
  "endIndexOr0 r = (case r of None \<Rightarrow> 0 | Some rg \<Rightarrow>
     (case endIndex rg of None \<Rightarrow> 0 | Some i \<Rightarrow> i))"

text \<open>
  The inner \<open>for\<close> loop over \<open>originalFormattingRequests\<close>: a request is
  re-anchored and pushed only under \<open>if (formatRequest.updateTextStyle)\<close>.
\<close>

definition adjustFormatRequest :: "string option \<Rightarrow> int \<Rightarrow> Request \<Rightarrow> Request list" where
  "adjustFormatRequest tabId adjustedPosition formatRequest =
     (case updateTextStyle formatRequest of
        None \<Rightarrow> []
      | Some uts \<Rightarrow>
          [emptyRequest\<lparr>updateTextStyle := Some (uts\<lparr>uts_range := Some
             \<lparr>range_tabId = tabId,
              startIndex = Some (startIndexOr0 (uts_range uts) + adjustedPosition),
              endIndex = Some (endIndexOr0 (uts_range uts) + adjustedPosition)\<rparr>\<rparr>)\<rparr>])"

fun adjustFormatRequests :: "string option \<Rightarrow> int \<Rightarrow> Request list \<Rightarrow> Request list" where
  "adjustFormatRequests tabId adjustedPosition [] = []"
| "adjustFormatRequests tabId adjustedPosition (formatRequest # rest) =
     adjustFormatRequest tabId adjustedPosition formatRequest
       @ adjustFormatRequests tabId adjustedPosition rest"

text \<open>
  The outer \<open>for\<close> loop over the occurrences, with the running
  \<open>cumulativeOffset\<close> and the request list built so far as loop state.
\<close>

fun replacementLoop ::
  "string option \<Rightarrow> string \<Rightarrow> string \<Rightarrow> Request list \<Rightarrow> int list \<Rightarrow> int \<Rightarrow>
   Request list \<Rightarrow> Request list" where
  "replacementLoop tabId findText processedText fmts [] cumulativeOffset requests = requests"
| "replacementLoop tabId findText processedText fmts (occurrence # rest) cumulativeOffset requests =
     (let adjustedPosition = occurrence + cumulativeOffset;
          lengthDiff = int (length processedText) - int (length findText)
      in replacementLoop tabId findText processedText fmts rest
           (cumulativeOffset + lengthDiff)
           (requests
              @ [deleteRequest tabId findText adjustedPosition]
              @ [insertRequest tabId processedText adjustedPosition]
              @ adjustFormatRequests tabId adjustedPosition fmts))"

definition generateReplacementRequests ::
  "StructuralElement list option \<Rightarrow> string option \<Rightarrow> string \<Rightarrow> string \<Rightarrow>
   Request list \<Rightarrow> Request list option" where
  "generateReplacementRequests content tabId findText processedText
     originalFormattingRequests =
     (case findOccurrences (getFullDocumentText content) findText 0 [] of
        None \<Rightarrow> None
      | Some occurrences \<Rightarrow>
          Some (replacementLoop tabId findText processedText
                  originalFormattingRequests occurrences 0 []))"

declare findOccurrences.simps [code]

section \<open>The markdown compiler (utils/markdownToDocsRequests.ts)\<close>

text \<open>
  A token of the \<open>marked\<close> inline lexer, as far as \<open>processTokens\<close>
  inspects it: \<open>type\<close>, the optional child list \<open>tokens\<close>, the optional
  \<open>text\<close> and the optional \<open>href\<close>. The lexer itself is a library; the
  compiler takes its \<open>inlineTokens\<close> function as a parameter.
\<close>

datatype Token =
  Token (tok_type: string) (tok_tokens: "Token list option")
        (tok_text: "string option") (tok_href: "string option")

datatype RangeType = Bold | Italic | Code | Link | Heading

record FormatRange =
  fr_start :: nat
  fr_end :: nat
  fr_type :: RangeType
  url :: "string option"
  headingLevel :: "nat option"
  isParagraph :: "bool option"

text \<open>The mutable locals \<open>plainText\<close> and \<open>formattingRanges\<close>.\<close>

type_synonym CompilerState = "string \<times> FormatRange list"

text \<open>
  \<open>plainText += token.text\<close>: string concatenation renders an absent
  \<open>text\<close> as the word \<open>undefined\<close>.
\<close>

definition appendTokenText :: "string option \<Rightarrow> CompilerState \<Rightarrow> CompilerState" where
  "appendTokenText txt st =
     (fst st @ (case txt of None \<Rightarrow> ''undefined'' | Some t \<Rightarrow> t), snd st)"

definition pushRange :: "FormatRange \<Rightarrow> CompilerState \<Rightarrow> CompilerState" where
  "pushRange r st = (fst st, snd st @ [r])"

definition inlineRange :: "nat \<Rightarrow> nat \<Rightarrow> RangeType \<Rightarrow> string option \<Rightarrow> FormatRange" where
  "inlineRange s e ty u =
     \<lparr>fr_start = s, fr_end = e, fr_type = ty, url = u,
      headingLevel = None, isParagraph = None\<rparr>"

fun processToken :: "Token \<Rightarrow> CompilerState \<Rightarrow> CompilerState"
  and processTokens :: "Token list \<Rightarrow> CompilerState \<Rightarrow> CompilerState" where
  "processTokens [] st = st"
| "processTokens (token # rest) st = processTokens rest (processToken token st)"
| "processToken (Token ty toks txt href) st =
     (let start = length (fst st) in
      if ty = ''text'' \<or> ty = ''escape'' then
        (case toks of Some ts \<Rightarrow> processTokens ts st
                    | None \<Rightarrow> appendTokenText txt st)
      else if ty = ''strong'' then
        (let st' = (case toks of Some ts \<Rightarrow> processTokens ts st
                               | None \<Rightarrow> appendTokenText txt st)
         in pushRange (inlineRange start (length (fst st')) Bold None) st')
      else if ty = ''em'' then
        (let st' = (case toks of Some ts \<Rightarrow> processTokens ts st
                               | None \<Rightarrow> appendTokenText txt st)
         in pushRange (inlineRange start (length (fst st')) Italic None) st')
      else if ty = ''codespan'' then
        (let st' = appendTokenText txt st
         in pushRange (inlineRange start (length (fst st')) Code None) st')
      else if ty = ''link'' then
        (let st' = (case toks of Some ts \<Rightarrow> processTokens ts st
                               | None \<Rightarrow> appendTokenText txt st)
         in pushRange (inlineRange start (length (fst st')) Link href) st')
      else
        (case toks of
           Some ts \<Rightarrow> processTokens ts st
         | None \<Rightarrow>
             (case txt of
                Some t \<Rightarrow> if t \<noteq> [] then appendTokenText txt st else st
              | None \<Rightarrow> st)))"

text \<open>\<open>markdown.split('\n')\<close>: always at least one line.\<close>

fun splitLines :: "string \<Rightarrow> string list" where
  "splitLines [] = [[]]"
| "splitLines (c # cs) =
     (if c = CHR 0x0A then [] # splitLines cs
      else (c # hd (splitLines cs)) # tl (splitLines cs))"

text \<open>
  The character classes of the heading pattern, on the characters that a
  \<open>char\<close> can hold: \<open>\s\<close> is tab, line feed, vertical tab, form feed,
  carriage return, space and no-break space; \<open>.\<close> is everything but the
  line terminators.
\<close>

definition isWhiteSpace :: "char \<Rightarrow> bool" where
  "isWhiteSpace c \<longleftrightarrow>
     c \<in> {CHR 0x09, CHR 0x0A, CHR 0x0B, CHR 0x0C, CHR 0x0D, CHR 0x20, CHR 0xA0}"

definition isLineTerminator :: "char \<Rightarrow> bool" where
  "isLineTerminator c \<longleftrightarrow> c = CHR 0x0A \<or> c = CHR 0x0D"

text \<open>
  \<open>line.match(/^(#{1,6})\s+(.+)$/)\<close> as the backtracking matcher runs it:
  the candidates are tried greediest first (as many hashes as possible, then
  as much white space as possible); the rest of the line must be non-empty
  and free of line terminators. The result is the length of group 1 and
  group 2.
\<close>

definition headingCandidate :: "string \<Rightarrow> nat \<times> nat \<Rightarrow> bool" where
  "headingCandidate line kj =
     (case kj of (k, j) \<Rightarrow>
        k + j < length line \<and>
        take k line = replicate k (CHR ''#'') \<and>
        list_all isWhiteSpace (take j (drop k line)) \<and>
        list_all (\<lambda>c. \<not> isLineTerminator c) (drop (k + j) line))"

definition headingMatch :: "string \<Rightarrow> (nat \<times> string) option" where
  "headingMatch line =
     map_option (\<lambda>(k, j). (k, drop (k + j) line))
       (List.find (headingCandidate line)
          (concat (map (\<lambda>k. map (\<lambda>j. (k, j)) (rev [1 ..< Suc (length line)]))
                       (rev [1 ..< 7]))))"

text \<open>\<open>line.trim()\<close> is truthy when some character is not white space.\<close>

definition trimNonEmpty :: "string \<Rightarrow> bool" where
  "trimNonEmpty line \<longleftrightarrow> \<not> list_all isWhiteSpace line"

definition headingRange :: "nat \<Rightarrow> nat \<Rightarrow> nat \<Rightarrow> FormatRange" where
  "headingRange s e level =
     \<lparr>fr_start = s, fr_end = e, fr_type = Heading, url = None,
      headingLevel = Some level, isParagraph = Some True\<rparr>"

definition processLine ::
  "(string \<Rightarrow> Token list) \<Rightarrow> string \<Rightarrow> CompilerState \<Rightarrow> CompilerState" where
  "processLine inlineTokens line st =
     (case headingMatch line of
        Some (level, content) \<Rightarrow>
          (let start = length (fst st);
               st' = processTokens (inlineTokens content) st
           in pushRange (headingRange start (length (fst st')) level) st')
      | None \<Rightarrow>
          if trimNonEmpty line then processTokens (inlineTokens line) st else st)"

text \<open>The loop over the lines; a line feed follows every line but the last.\<close>

fun processLines ::
  "(string \<Rightarrow> Token list) \<Rightarrow> string list \<Rightarrow> CompilerState \<Rightarrow> CompilerState" where
  "processLines inlineTokens [] st = st"
| "processLines inlineTokens (line # rest) st =
     (let st1 = processLine inlineTokens line st;
          st2 = (if rest \<noteq> [] then (fst st1 @ [CHR 0x0A], snd st1) else st1)
      in processLines inlineTokens rest st2)"

text \<open>Lowering the ranges to requests: the body of the second loop.\<close>

definition emptyTextStyle :: TextStyle where
  "emptyTextStyle = \<lparr>bold = None, italic = None, weightedFontFamily = None,
     backgroundColor = None, link = None, foregroundColor = None, underline = None\<rparr>"

fun joinComma :: "string list \<Rightarrow> string" where
  "joinComma [] = []"
| "joinComma [f] = f"
| "joinComma (f # g # fs) = f @ '','' @ joinComma (g # fs)"

text \<open>The tail of the loop body: a text-style request when \<open>fields\<close> is not empty.\<close>

definition textStyleRequests ::
  "int \<Rightarrow> FormatRange \<Rightarrow> TextStyle \<Rightarrow> string list \<Rightarrow> Request list" where
  "textStyleRequests startIdx rng ts flds =
     (if flds \<noteq> [] then
        [emptyRequest\<lparr>updateTextStyle := Some
           \<lparr>uts_range = Some \<lparr>range_tabId = None,
                startIndex = Some (startIdx + int (fr_start rng)),
                endIndex = Some (startIdx + int (fr_end rng))\<rparr>,
            textStyle = ts, uts_fields = joinComma flds\<rparr>\<rparr>]
      else [])"

text \<open>\<open>headingStyles[range.headingLevel] || 'HEADING_1'\<close>.\<close>

definition headingStyleName :: "nat \<Rightarrow> string" where
  "headingStyleName level =
     (if level = 1 then ''HEADING_1'' else if level = 2 then ''HEADING_2''
      else if level = 3 then ''HEADING_3'' else if level = 4 then ''HEADING_4''
      else if level = 5 then ''HEADING_5'' else if level = 6 then ''HEADING_6''
      else ''HEADING_1'')"

definition paragraphStyleRequest :: "int \<Rightarrow> FormatRange \<Rightarrow> nat \<Rightarrow> Request" where
  "paragraphStyleRequest startIdx rng level =
     emptyRequest\<lparr>updateParagraphStyle := Some
       \<lparr>namedStyleType = headingStyleName level,
        ups_range = Some \<lparr>range_tabId = None,
          startIndex = Some (startIdx + int (fr_start rng)),
          endIndex = Some (startIdx + int (fr_end rng))\<rparr>,
        ups_fields = ''namedStyleType''\<rparr>\<rparr>"

definition truthyString :: "string option \<Rightarrow> bool" where
  "truthyString s = (case s of None \<Rightarrow> False | Some t \<Rightarrow> t \<noteq> [])"

definition truthyNumber :: "nat option \<Rightarrow> bool" where
  "truthyNumber n = (case n of None \<Rightarrow> False | Some k \<Rightarrow> k \<noteq> 0)"

definition rangeRequests :: "int \<Rightarrow> FormatRange \<Rightarrow> Request list" where
  "rangeRequests startIdx rng =
     (if fr_type rng = Bold then
        textStyleRequests startIdx rng (emptyTextStyle\<lparr>bold := Some True\<rparr>) [''bold'']
      else if fr_type rng = Italic then
        textStyleRequests startIdx rng (emptyTextStyle\<lparr>italic := Some True\<rparr>) [''italic'']
      else if fr_type rng = Code then
        textStyleRequests startIdx rng
          (emptyTextStyle\<lparr>
             weightedFontFamily := Some \<lparr>fontFamily = ''Courier New'', weight = 400\<rparr>,
             backgroundColor := Some \<lparr>red = 95 / 100, green = 95 / 100, blue = 95 / 100\<rparr>\<rparr>)
          [''weightedFontFamily'', ''backgroundColor'']
      else if fr_type rng = Link \<and> truthyString (url rng) then
        textStyleRequests startIdx rng
          (emptyTextStyle\<lparr>
             link := url rng,
             foregroundColor := Some \<lparr>red = 6 / 100, green = 33 / 100, blue = 8 / 10\<rparr>,
             underline := Some True\<rparr>)
          [''link'', ''foregroundColor'', ''underline'']
      else if fr_type rng = Heading \<and> truthyNumber (headingLevel rng)
              \<and> isParagraph rng = Some True then
        [paragraphStyleRequest startIdx rng (the (headingLevel rng))]
      else textStyleRequests startIdx rng emptyTextStyle [])"

fun lowerRanges :: "int \<Rightarrow> FormatRange list \<Rightarrow> Request list" where
  "lowerRanges startIdx [] = []"
| "lowerRanges startIdx (rng # rest) =
     rangeRequests startIdx rng @ lowerRanges startIdx rest"

record ParsedMarkdown =
  plainText :: string
  formattingRequests :: "Request list"

definition compileRanges :: "(string \<Rightarrow> Token list) \<Rightarrow> string \<Rightarrow> CompilerState" where
  "compileRanges inlineTokens markdown =
     processLines inlineTokens (splitLines markdown) ([], [])"

definition parseMarkdownToDocsRequests ::
  "(string \<Rightarrow> Token list) \<Rightarrow> string \<Rightarrow> int \<Rightarrow> ParsedMarkdown" where
  "parseMarkdownToDocsRequests inlineTokens markdown startIdx =
     (let st = compileRanges inlineTokens markdown
      in \<lparr>plainText = fst st, formattingRequests = lowerRanges startIdx (snd st)\<rparr>)"

text \<open>
  \<open>text.replace(/\n\n+/g, '\n\n')\<close> as the global replace runs it: scanning
  from the left, a position where two line feeds start is matched together
  with all line feeds that follow and replaced by two; any other character
  is copied.
\<close>

function processMarkdownLineBreaks :: "string \<Rightarrow> string" where
  "processMarkdownLineBreaks [] = []"
| "processMarkdownLineBreaks (c # cs) =
     (if c = CHR 0x0A \<and> cs \<noteq> [] \<and> hd cs = CHR 0x0A
      then [CHR 0x0A, CHR 0x0A]
             @ processMarkdownLineBreaks (dropWhile (\<lambda>x. x = CHR 0x0A) cs)
      else c # processMarkdownLineBreaks cs)"
  by pat_completeness auto
termination
  by (relation "measure length") (auto simp: length_dropWhile_le less_Suc_eq_le)

section \<open>DocsService: tab ids, insertText and replaceText\<close>

text \<open>
  \<open>_addTabIdToFormattingRequests\<close>. \<open>!tabId\<close> holds for an absent and for
  an empty tab id.
\<close>

definition addTabIdToRequest :: "string \<Rightarrow> Request \<Rightarrow> Request" where
  "addTabIdToRequest tabId req =
     req\<lparr>updateTextStyle :=
           (case updateTextStyle req of
              None \<Rightarrow> None
            | Some uts \<Rightarrow>
                (case uts_range uts of
                   None \<Rightarrow> Some uts
                 | Some r \<Rightarrow> Some (uts\<lparr>uts_range := Some (r\<lparr>range_tabId := Some tabId\<rparr>)\<rparr>))),
         updateParagraphStyle :=
           (case updateParagraphStyle req of
              None \<Rightarrow> None
            | Some ups \<Rightarrow>
                (case ups_range ups of
                   None \<Rightarrow> Some ups
                 | Some r \<Rightarrow> Some (ups\<lparr>ups_range := Some (r\<lparr>range_tabId := Some tabId\<rparr>)\<rparr>))),
         insertText :=
           (case insertText req of
              None \<Rightarrow> None
            | Some it \<Rightarrow>
                (case location it of
                   None \<Rightarrow> Some it
                 | Some l \<Rightarrow> Some (it\<lparr>location := Some (l\<lparr>location_tabId := Some tabId\<rparr>)\<rparr>)))\<rparr>"

definition addTabIdToFormattingRequests :: "Request list \<Rightarrow> string option \<Rightarrow> Request list" where
  "addTabIdToFormattingRequests requests tabId =
     (if \<not> truthyString tabId \<or> requests = [] then requests
      else map (addTabIdToRequest (the tabId)) requests)"

text \<open>The request batch that \<open>insertText\<close> hands to \<open>batchUpdate\<close>.\<close>

definition insertTextRequests ::
  "(string \<Rightarrow> Token list) \<Rightarrow> string \<Rightarrow> string option \<Rightarrow> Request list" where
  "insertTextRequests inlineTokens txt tabId =
     (let parsed = parseMarkdownToDocsRequests inlineTokens txt 1;
          processedText = processMarkdownLineBreaks (plainText parsed);
          requests = [insertRequest tabId processedText 1]
      in if formattingRequests parsed \<noteq> []
         then requests @ addTabIdToFormattingRequests (formattingRequests parsed) tabId
         else requests)"

text \<open>
  The service methods talk to remote services. Their outcomes are inputs of
  the model: a rejected promise is \<open>Inl\<close> of the error message, a resolved
  one is \<open>Inr\<close>. A method returns the text of its result envelope together
  with the \<open>batchUpdate\<close> calls it issued, in order. \<open>extractDocId\<close>
  (utils/IdUtils) is a parameter.
\<close>

datatype ResultText =
    Message string
  | ErrorJson string
  | RepliesJson string

record Tab =
  tab_tabId :: "string option"
  tab_content :: "StructuralElement list option"

record DocsEnv =
  extractDocId :: "string \<Rightarrow> string option"
  getDocsClient :: "string + unit"
  documentsGet :: "string \<Rightarrow> string + Tab list option"
  batchUpdate :: "string \<Rightarrow> Request list \<Rightarrow> string + unit"
  inlineTokens :: "string \<Rightarrow> Token list"

text \<open>\<open>extractDocId(documentId) || documentId\<close>.\<close>

definition resolveId :: "(string \<Rightarrow> string option) \<Rightarrow> string \<Rightarrow> string" where
  "resolveId extract documentId =
     (case extract documentId of
        None \<Rightarrow> documentId
      | Some i \<Rightarrow> if i \<noteq> [] then i else documentId)"

text \<open>The loop \<open>for (const tab of tabs)\<close> of \<open>replaceText\<close>.\<close>

fun allTabsRequests ::
  "string \<Rightarrow> string \<Rightarrow> Request list \<Rightarrow> Tab list \<Rightarrow> Request list \<Rightarrow> Request list option" where
  "allTabsRequests findText processedText fmts [] requests = Some requests"
| "allTabsRequests findText processedText fmts (tab # rest) requests =
     (case generateReplacementRequests (tab_content tab) (tab_tabId tab)
             findText processedText fmts of
        None \<Rightarrow> None
      | Some tabRequests \<Rightarrow>
          allTabsRequests findText processedText fmts rest (requests @ tabRequests))"

text \<open>The end of \<open>replaceText\<close>: the guarded \<open>batchUpdate\<close> and the result.\<close>

definition submitReplacement ::
  "DocsEnv \<Rightarrow> string \<Rightarrow> Request list option \<Rightarrow>
   (ResultText \<times> (string \<times> Request list) list) option" where
  "submitReplacement env docId planned =
     (case planned of
        None \<Rightarrow> None
      | Some requests \<Rightarrow>
          if requests \<noteq> [] then
            (case batchUpdate env docId requests of
               Inl e \<Rightarrow> Some (ErrorJson e, [(docId, requests)])
             | Inr u \<Rightarrow>
                 Some (Message (''Successfully replaced text in document '' @ docId),
                       [(docId, requests)]))
          else Some (Message (''Successfully replaced text in document '' @ docId), []))"

text \<open>
  \<open>replaceText\<close>. \<open>None\<close> means that the call never returns (the occurrence
  scan of some tab runs forever).
\<close>

definition replaceText ::
  "DocsEnv \<Rightarrow> string \<Rightarrow> string \<Rightarrow> string \<Rightarrow> string option \<Rightarrow>
   (ResultText \<times> (string \<times> Request list) list) option" where
  "replaceText env documentId findText replaceTxt tabId =
     (let docId = resolveId (extractDocId env) documentId in
      case getDocsClient env of
        Inl e \<Rightarrow> Some (ErrorJson e, [])
      | Inr u \<Rightarrow>
          (let parsed = parseMarkdownToDocsRequests (inlineTokens env) replaceTxt 0;
               processedText = processMarkdownLineBreaks (plainText parsed);
               originalFormattingRequests = formattingRequests parsed
           in case documentsGet env docId of
                Inl e \<Rightarrow> Some (ErrorJson e, [])
              | Inr tabsOpt \<Rightarrow>
                  (let tabs = (case tabsOpt of None \<Rightarrow> [] | Some ts \<Rightarrow> ts) in
                   if truthyString tabId then
                     (case List.find (\<lambda>t. tab_tabId t = tabId) tabs of
                        None \<Rightarrow>
                          Some (ErrorJson (''Tab with ID '' @ the tabId @ '' not found.''), [])
                      | Some tab \<Rightarrow>
                          submitReplacement env docId
                            (generateReplacementRequests (tab_content tab) tabId
                               findText processedText originalFormattingRequests))
                   else
                     submitReplacement env docId
                       (allTabsRequests findText processedText
                          originalFormattingRequests tabs []))))"

section \<open>SlidesService.replaceAllText\<close>

record ReplaceAllTextRequest =
  containsText_text :: string
  matchCase :: bool
  rat_replaceText :: string

record SlidesEnv =
  slides_extractDocId :: "string \<Rightarrow> string option"
  getSlidesClient :: "string + unit"
  presentationsBatchUpdate :: "string \<Rightarrow> ReplaceAllTextRequest list \<Rightarrow> string + string"

text \<open>
  \<open>replacements\<close> is given by its \<open>Object.entries\<close>. The result of a
  successful \<open>batchUpdate\<close> is the rendering of \<open>response.data.replies\<close>.
\<close>

definition replaceAllText ::
  "SlidesEnv \<Rightarrow> string \<Rightarrow> (string \<times> string) list \<Rightarrow>
   ResultText \<times> (string \<times> ReplaceAllTextRequest list) list" where
  "replaceAllText env presentationId replacements =
     (let presId = resolveId (slides_extractDocId env) presentationId in
      case getSlidesClient env of
        Inl e \<Rightarrow> (ErrorJson e, [])
      | Inr u \<Rightarrow>
          (let requests = map (\<lambda>(key, val).
                 \<lparr>containsText_text = key, matchCase = True, rat_replaceText = val\<rparr>)
                 replacements
           in if requests = [] then (Message ''No replacements provided.'', [])
              else (case presentationsBatchUpdate env presId requests of
                      Inl e \<Rightarrow> (ErrorJson e, [(presId, requests)])
                    | Inr replies \<Rightarrow> (RepliesJson replies, [(presId, requests)]))))"

section \<open>The Auth Manager's credential merge\<close>

text \<open>
  A credential and a token set are JavaScript objects: maps from property
  names to values. A property can be present with the value \<open>undefined\<close>.
\<close>

datatype JsValue = Undefined | Str string | Num int

type_synonym Credentials = "string \<rightharpoonup> JsValue"

definition isDefined :: "JsValue option \<Rightarrow> bool" where
  "isDefined v = (case v of None \<Rightarrow> False | Some Undefined \<Rightarrow> False | Some x \<Rightarrow> True)"

text \<open>
  Modelled from the spec: the merge rule of the Auth Manager (auth/AuthManager.ts
  is not among the sources). The result is \<open>{...previousCredential,
  ...newCredentialFields}\<close>, except that the previous \<open>refresh_token\<close> is
  carried forward when the new fields have none.
\<close>

definition mergeCredentials :: "Credentials \<Rightarrow> Credentials \<Rightarrow> Credentials" where
  "mergeCredentials previousCredential newCredentialFields =
     (if isDefined (newCredentialFields ''refresh_token'')
      then previousCredential ++ newCredentialFields
      else (previousCredential ++ newCredentialFields)
             (''refresh_token'' := previousCredential ''refresh_token''))"

text \<open>
  Modelled from the spec: the Auth Manager's session (the last known
  credential and the content of the Credential Store) and the steps 3 to 5
  of the refresh algorithm: merge, persist, update the last known credential.
\<close>

record AuthSession =
  lastKnownCredential :: Credentials
  storedCredential :: "Credentials option"

datatype AuthRefreshError = NoRefreshToken | RefreshFailed string

definition applyTokenUpdate :: "AuthSession \<Rightarrow> Credentials \<Rightarrow> AuthSession" where
  "applyTokenUpdate session newTokens =
     (let merged = mergeCredentials (lastKnownCredential session) newTokens
      in session\<lparr>storedCredential := Some merged, lastKnownCredential := merged\<rparr>)"

text \<open>
  Modelled from the spec: the three ways in which the Auth Manager merges.
  The token-update listener receives the new token set; \<open>refreshToken\<close>
  fails without a network call when no refresh token is known, fails when
  the refresh endpoint does, and merges otherwise; \<open>getAuthenticatedClient\<close>
  refreshes first when the last known credential has expired. The outcome
  of the refresh endpoint and the expiry check are inputs.
\<close>

definition tokensListener :: "AuthSession \<Rightarrow> Credentials \<Rightarrow> AuthSession" where
  "tokensListener session newTokens = applyTokenUpdate session newTokens"

definition refreshToken ::
  "AuthSession \<Rightarrow> string + Credentials \<Rightarrow> AuthRefreshError + AuthSession" where
  "refreshToken session endpointResult =
     (if \<not> isDefined (lastKnownCredential session ''refresh_token'') then Inl NoRefreshToken
      else case endpointResult of
             Inl e \<Rightarrow> Inl (RefreshFailed e)
           | Inr newTokens \<Rightarrow> Inr (applyTokenUpdate session newTokens))"

definition getAuthenticatedClient ::
  "bool \<Rightarrow> AuthSession \<Rightarrow> string + Credentials \<Rightarrow> AuthRefreshError + AuthSession" where
  "getAuthenticatedClient expired session endpointResult =
     (if expired then refreshToken session endpointResult else Inr session)"

section \<open>Comparing requests up to their tab ids\<close>

text \<open>
  A request with the three tab ids that \<open>_addTabIdToFormattingRequests\<close> may
  write (in \<open>updateTextStyle.range\<close>, \<open>updateParagraphStyle.range\<close> and
  \<open>insertText.location\<close>) blanked. Two requests that agree after blanking
  differ in these three fields at most.
\<close>

definition withoutTabIds :: "Request \<Rightarrow> Request" where
  "withoutTabIds req =
     req\<lparr>updateTextStyle :=
           map_option (\<lambda>uts. uts\<lparr>uts_range :=
              map_option (\<lambda>r. r\<lparr>range_tabId := None\<rparr>) (uts_range uts)\<rparr>)
             (updateTextStyle req),
         updateParagraphStyle :=
           map_option (\<lambda>ups. ups\<lparr>ups_range :=
              map_option (\<lambda>r. r\<lparr>range_tabId := None\<rparr>) (ups_range ups)\<rparr>)
             (updateParagraphStyle req),
         insertText :=
           map_option (\<lambda>it. it\<lparr>location :=
              map_option (\<lambda>l. l\<lparr>location_tabId := None\<rparr>) (location it)\<rparr>)
             (insertText req)\<rparr>"

section \<open>Properties of the text-replacement planner\<close>

lemma indexOf_empty: "indexOf s [] pos = Some (min pos (length s))"
  unfolding indexOf_def by (simp add: upt_conv_Cons del: upt_Suc)

lemma indexOf_SomeD:
  assumes "indexOf s t pos = Some k"
  shows "min pos (length s) \<le> k" "k \<le> length s" "prefix t (drop k s)"
  using assms unfolding indexOf_def by (auto simp: find_Some_iff simp del: upt_Suc)

lemma indexOf_None_iff:
  "indexOf s t pos = None \<longleftrightarrow>
     (\<forall>k. min pos (length s) \<le> k \<and> k \<le> length s \<longrightarrow> \<not> prefix t (drop k s))"
  unfolding indexOf_def by (auto simp: find_None_iff simp del: upt_Suc)

text \<open>
  With an empty search string the scan finds a match at the position where
  it stands and does not advance: it never returns.
\<close>

lemma findOccurrences_empty_diverges:
  "findOccurrences documentText [] searchIndex occurrences = None"
proof -
  have "f \<noteq> []" if "findOccurrences d f i acc = Some y" for d f i acc y
  proof (rule findOccurrences.raw_induct[where P = "\<lambda>d f i acc y. f \<noteq> []", OF _ that])
    fix fo :: "string \<Rightarrow> string \<Rightarrow> nat \<Rightarrow> int list \<Rightarrow> int list option"
    fix d f i acc y
    assume IH: "\<And>d f i acc y. fo d f i acc = Some y \<Longrightarrow> f \<noteq> []"
    assume step: "(case indexOf d f i of None \<Rightarrow> Some acc
       | Some k \<Rightarrow> fo d f (k + length f) (acc @ [int k + 1])) = Some y"
    show "f \<noteq> []"
    proof
      assume "f = []"
      with step have "fo d [] (min i (length d)) (acc @ [int (min i (length d)) + 1]) = Some y"
        by (simp add: indexOf_empty)
      from IH[OF this] show False by simp
    qed
  qed
  then have "findOccurrences documentText [] searchIndex occurrences \<noteq> Some y" for y
    by blast
  then show ?thesis by (meson not_Some_eq)
qed

text \<open>With a non-empty search string every step advances: the scan returns.\<close>

lemma findOccurrences_terminates:
  assumes "findText \<noteq> []"
  shows "\<exists>occs. findOccurrences documentText findText searchIndex occurrences = Some occs"
proof (induction "Suc (length documentText) - searchIndex"
         arbitrary: searchIndex occurrences rule: less_induct)
  case less
  show ?case
  proof (cases "indexOf documentText findText searchIndex")
    case None
    then show ?thesis by (subst findOccurrences.simps) simp
  next
    case (Some k)
    note d = indexOf_SomeD[OF Some]
    have pos: "0 < length findText" using assms by simp
    from prefix_length_le[OF d(3)] d(2)
    have kl: "k + length findText \<le> length documentText" by simp
    have "searchIndex \<le> k"
      using d(1) kl pos by (cases "searchIndex \<le> length documentText") (auto simp: min_def)
    then have "Suc (length documentText) - (k + length findText)
                 < Suc (length documentText) - searchIndex"
      using kl pos by linarith
    from less[OF this] Some show ?thesis by (subst findOccurrences.simps) simp
  qed
qed

text \<open>
  The outer loop, unrolled: the block of the \<open>i\<close>-th occurrence is anchored at
  the occurrence plus \<open>i\<close> times the length difference.
\<close>

lemma replacementLoop_enumerate:
  "replacementLoop tabId ft pt fmts occs off reqs =
     reqs @ concat (map (\<lambda>(i, occ).
        [deleteRequest tabId ft
           (occ + off + (int i - int n) * (int (length pt) - int (length ft))),
         insertRequest tabId pt
           (occ + off + (int i - int n) * (int (length pt) - int (length ft)))]
        @ adjustFormatRequests tabId
            (occ + off + (int i - int n) * (int (length pt) - int (length ft))) fmts)
       (enumerate n occs))"
proof (induction occs arbitrary: off reqs n)
  case Nil
  then show ?case by simp
next
  case (Cons occ occs)
  have a: "x + (off + (int (length pt) - int (length ft)))
             + (int i - (1 + int n)) * (int (length pt) - int (length ft))
      = x + off + (int i - int n) * (int (length pt) - int (length ft))" for x i
    by (simp add: algebra_simps)
  show ?case
    by (simp add: Cons.IH[where n = "Suc n"] Let_def a)
qed

text \<open>With a non-empty \<open>findText\<close> the planner returns a request list.\<close>

lemma generateReplacementRequests_returns:
  assumes "findText \<noteq> []"
  shows "\<exists>requests.
           generateReplacementRequests content tabId findText processedText fmts = Some requests"
proof -
  from findOccurrences_terminates[OF assms, of "getFullDocumentText content" 0 "[]"]
  obtain occs where "findOccurrences (getFullDocumentText content) findText 0 [] = Some occs"
    by blast
  then show ?thesis by (simp add: generateReplacementRequests_def)
qed

text \<open>
  Claim C2: with an empty \<open>findText\<close> the planner should return, with zero
  occurrences and an empty operation list. The code does not: for every
  document, tab id, replacement and list of formatting requests the
  occurrence scan runs forever and the planner never returns.
\<close>

theorem empty_findText_never_returns:
  "generateReplacementRequests content tabId [] processedText originalFormattingRequests = None"
  by (simp add: generateReplacementRequests_def findOccurrences_empty_diverges)

text \<open>
  Claim C3: after the delete and the insert of an occurrence, every style
  operation of the compiled replacement should follow, re-anchored, the
  heading operations included. On the document \<open>x\<close>, with \<open>x\<close> replaced by
  the markdown \<open># Title\<close>, the compiler produces one \<open>updateParagraphStyle\<close>
  operation over \<open>[0, 5)\<close>, and the planner emits the delete and the insert
  only.
\<close>

theorem planner_drops_heading_operation:
  "formattingRequests (parseMarkdownToDocsRequests
        (\<lambda>s. [Token ''text'' None (Some s) None]) ''# Title'' 0)
     = [paragraphStyleRequest 0 (headingRange 0 5 1) 1]
   \<and> generateReplacementRequests (Some [Paragraph [Some ''x'']]) None ''x'' ''Title''
       (formattingRequests (parseMarkdownToDocsRequests
          (\<lambda>s. [Token ''text'' None (Some s) None]) ''# Title'' 0))
     = Some [deleteRequest None ''x'' 1, insertRequest None ''Title'' 1]"
  by code_simp

text \<open>
  Claim C4: on the text \<open>Hello world! Hello again!\<close>, replacing \<open>Hello\<close> by
  the plain text \<open>Hi\<close>: the occurrences are at the document indices 1 and 14;
  the first block deletes \<open>[1, 6)\<close> and inserts at 1; the second block is
  anchored at \<open>14 + (-3) = 11\<close>. In general the cumulative offset starts at 0
  and grows by the length difference after each occurrence, so the block of
  the \<open>i\<close>-th occurrence (counting from 0) is anchored at the occurrence plus
  \<open>i\<close> times the length difference.
\<close>

theorem offset_tracking_example:
  "findOccurrences ''Hello world! Hello again!'' ''Hello'' 0 [] = Some [1, 14]
   \<and> generateReplacementRequests (Some [Paragraph [Some ''Hello world! Hello again!'']])
        tabId ''Hello'' ''Hi'' fmts
     = Some ([deleteRequest tabId ''Hello'' 1, insertRequest tabId ''Hi'' 1]
             @ adjustFormatRequests tabId 1 fmts
             @ [deleteRequest tabId ''Hello'' (14 + (0 + (int (length ''Hi'') - int (length ''Hello'')))),
                insertRequest tabId ''Hi'' 11]
             @ adjustFormatRequests tabId 11 fmts)
   \<and> deleteContentRange (deleteRequest tabId ''Hello'' 1)
     = Some \<lparr>dcr_range = \<lparr>range_tabId = tabId, startIndex = Some 1, endIndex = Some 6\<rparr>\<rparr>
   \<and> insertText (insertRequest tabId ''Hi'' 1)
     = Some \<lparr>location = Some \<lparr>location_tabId = tabId, index = Some 1\<rparr>, ins_text = ''Hi''\<rparr>
   \<and> deleteContentRange (deleteRequest tabId ''Hello'' 11)
     = Some \<lparr>dcr_range = \<lparr>range_tabId = tabId, startIndex = Some 11, endIndex = Some 16\<rparr>\<rparr>
   \<and> (findOccurrences (getFullDocumentText content) findText 0 [] = Some occs \<longrightarrow>
        generateReplacementRequests content tid findText processedText fs
        = Some (concat (map (\<lambda>(i, occurrence).
            [deleteRequest tid findText
               (occurrence + int i * (int (length processedText) - int (length findText))),
             insertRequest tid processedText
               (occurrence + int i * (int (length processedText) - int (length findText)))]
            @ adjustFormatRequests tid
               (occurrence + int i * (int (length processedText) - int (length findText))) fs)
          (enumerate 0 occs))))"
proof -
  have occ: "findOccurrences ''Hello world! Hello again!'' ''Hello'' 0 [] = Some [1, 14]"
    by code_simp
  have gen: "generateReplacementRequests (Some [Paragraph [Some ''Hello world! Hello again!'']])
        tabId ''Hello'' ''Hi'' fmts
     = Some ([deleteRequest tabId ''Hello'' 1, insertRequest tabId ''Hi'' 1]
             @ adjustFormatRequests tabId 1 fmts
             @ [deleteRequest tabId ''Hello'' (14 + (0 + (int (length ''Hi'') - int (length ''Hello'')))),
                insertRequest tabId ''Hi'' 11]
             @ adjustFormatRequests tabId 11 fmts)"
    using occ by (simp add: generateReplacementRequests_def getFullDocumentText_def)
  have d1: "deleteContentRange (deleteRequest tabId ''Hello'' 1)
     = Some \<lparr>dcr_range = \<lparr>range_tabId = tabId, startIndex = Some 1, endIndex = Some 6\<rparr>\<rparr>"
    by (simp add: deleteRequest_def emptyRequest_def)
  have i1: "insertText (insertRequest tabId ''Hi'' 1)
     = Some \<lparr>location = Some \<lparr>location_tabId = tabId, index = Some 1\<rparr>, ins_text = ''Hi''\<rparr>"
    by (simp add: insertRequest_def emptyRequest_def)
  have d2: "deleteContentRange (deleteRequest tabId ''Hello'' 11)
     = Some \<lparr>dcr_range = \<lparr>range_tabId = tabId, startIndex = Some 11, endIndex = Some 16\<rparr>\<rparr>"
    by (simp add: deleteRequest_def emptyRequest_def)
  have general: "generateReplacementRequests content tid findText processedText fs
        = Some (concat (map (\<lambda>(i, occurrence).
            [deleteRequest tid findText
               (occurrence + int i * (int (length processedText) - int (length findText))),
             insertRequest tid processedText
               (occurrence + int i * (int (length processedText) - int (length findText)))]
            @ adjustFormatRequests tid
               (occurrence + int i * (int (length processedText) - int (length findText))) fs)
          (enumerate 0 occs)))"
    if "findOccurrences (getFullDocumentText content) findText 0 [] = Some occs"
    using that replacementLoop_enumerate[of tid findText processedText fs occs 0 "[]" 0]
    by (simp add: generateReplacementRequests_def)
  from occ gen d1 i1 d2 general show ?thesis by blast
qed

theorem offset_tracking_example_witness:
  "findOccurrences (getFullDocumentText (Some [Paragraph [Some ''abab'']])) ''ab'' 0 [] = Some [1, 3]
   \<and> generateReplacementRequests (Some [Paragraph [Some ''abab'']]) None ''ab'' ''xyz'' []
     = Some [deleteRequest None ''ab'' 1, insertRequest None ''xyz'' 1,
             deleteRequest None ''ab'' 4, insertRequest None ''xyz'' 4]"
proof -
  have occ: "findOccurrences (getFullDocumentText (Some [Paragraph [Some ''abab'']])) ''ab'' 0 [] = Some [1, 3]"
    by code_simp
  from offset_tracking_example[of _ _ "Some [Paragraph [Some ''abab'']]" "''ab''" "[1, 3]" None "''xyz''" "[]"] occ
  have "generateReplacementRequests (Some [Paragraph [Some ''abab'']]) None ''ab'' ''xyz'' []
     = Some (concat (map (\<lambda>(i, occurrence).
            [deleteRequest None ''ab''
               (occurrence + int i * (int (length ''xyz'') - int (length ''ab''))),
             insertRequest None ''xyz''
               (occurrence + int i * (int (length ''xyz'') - int (length ''ab'')))]
            @ adjustFormatRequests None
               (occurrence + int i * (int (length ''xyz'') - int (length ''ab''))) [])
          (enumerate 0 [1, 3])))"
    by blast
  with occ show ?thesis by simp
qed

text \<open>A search string that does not occur in the text has no occurrence.\<close>

lemma findOccurrences_absent:
  assumes "\<not> sublist findText documentText"
  shows "findOccurrences documentText findText 0 [] = Some []"
proof -
  have "indexOf documentText findText 0 = None"
    unfolding indexOf_None_iff
  proof (intro allI impI notI)
    fix k assume "prefix findText (drop k documentText)"
    then obtain ss where "drop k documentText = findText @ ss" by (auto simp: prefix_def)
    then have "documentText = take k documentText @ findText @ ss"
      by (metis append_take_drop_id)
    with assms show False unfolding sublist_def by blast
  qed
  then show ?thesis by (subst findOccurrences.simps) simp
qed

lemma generateReplacementRequests_absent:
  "\<not> sublist findText (getFullDocumentText content) \<Longrightarrow>
   generateReplacementRequests content tabId findText processedText fmts = Some []"
  by (simp add: generateReplacementRequests_def findOccurrences_absent)

lemma allTabsRequests_absent:
  "\<forall>tab \<in> set tabs. \<not> sublist findText (getFullDocumentText (tab_content tab)) \<Longrightarrow>
   allTabsRequests findText processedText fmts tabs requests = Some requests"
  by (induction tabs arbitrary: requests) (simp_all add: generateReplacementRequests_absent)

text \<open>
  Claim C5: when the client and the document are obtained and \<open>findText\<close>
  does not occur in the text of the tab concerned (the tab named by
  \<open>tabId\<close>, or every tab when no \<open>tabId\<close> is given), \<open>replaceText\<close>
  plans no operation, issues no \<open>batchUpdate\<close> call and returns its success
  message.
\<close>

theorem replaceText_no_occurrence_is_noop:
  assumes client: "getDocsClient env = Inr u"
    and doc: "documentsGet env (resolveId (extractDocId env) documentId) = Inr tabsOpt"
    and absent:
      "if truthyString tabId
       then \<exists>tab. List.find (\<lambda>t. tab_tabId t = tabId)
                     (case tabsOpt of None \<Rightarrow> [] | Some ts \<Rightarrow> ts) = Some tab
                  \<and> \<not> sublist findText (getFullDocumentText (tab_content tab))
       else \<forall>tab \<in> set (case tabsOpt of None \<Rightarrow> [] | Some ts \<Rightarrow> ts).
              \<not> sublist findText (getFullDocumentText (tab_content tab))"
  shows "replaceText env documentId findText replaceTxt tabId
           = Some (Message (''Successfully replaced text in document ''
                      @ resolveId (extractDocId env) documentId), [])
         \<and> (\<not> sublist findText (getFullDocumentText content) \<longrightarrow>
              generateReplacementRequests content tid findText processedText fmts = Some [])"
proof (cases "truthyString tabId")
  case True
  with absent obtain tab where
    "List.find (\<lambda>t. tab_tabId t = tabId) (case tabsOpt of None \<Rightarrow> [] | Some ts \<Rightarrow> ts) = Some tab"
    "\<not> sublist findText (getFullDocumentText (tab_content tab))"
    by auto
  with True client doc show ?thesis
    by (simp add: replaceText_def Let_def submitReplacement_def
          generateReplacementRequests_absent)
next
  case False
  with absent have
    "\<forall>tab \<in> set (case tabsOpt of None \<Rightarrow> [] | Some ts \<Rightarrow> ts).
       \<not> sublist findText (getFullDocumentText (tab_content tab))"
    by simp
  with False client doc show ?thesis
    by (simp add: replaceText_def Let_def submitReplacement_def
          allTabsRequests_absent generateReplacementRequests_absent)
qed

theorem replaceText_no_occurrence_is_noop_witness:
  "\<not> sublist ''Bye'' ''Hello world!'' \<and>
   replaceText
     \<lparr>extractDocId = (\<lambda>d. None), getDocsClient = Inr (),
      documentsGet = (\<lambda>d. Inr (Some [\<lparr>tab_tabId = Some ''tab-1'',
         tab_content = Some [Paragraph [Some ''Hello world!'']]\<rparr>])),
      batchUpdate = (\<lambda>d rs. Inl ''API Error''),
      inlineTokens = (\<lambda>s. [Token ''text'' None (Some s) None])\<rparr>
     ''test-doc-id'' ''Bye'' ''Hi'' None
   = Some (Message ''Successfully replaced text in document test-doc-id'', [])"
proof -
  let ?env = "\<lparr>extractDocId = (\<lambda>d. None), getDocsClient = Inr (),
      documentsGet = (\<lambda>d. Inr (Some [\<lparr>tab_tabId = Some ''tab-1'',
         tab_content = Some [Paragraph [Some ''Hello world!'']]\<rparr>])),
      batchUpdate = (\<lambda>d rs. Inl ''API Error''),
      inlineTokens = (\<lambda>s. [Token ''text'' None (Some s) None])\<rparr>"
  have n: "\<not> sublist ''Bye'' ''Hello world!''" by code_simp
  have "replaceText ?env ''test-doc-id'' ''Bye'' ''Hi'' None
          = Some (Message (''Successfully replaced text in document ''
                     @ resolveId (extractDocId ?env) ''test-doc-id''), [])"
    using replaceText_no_occurrence_is_noop[of ?env "()" "''test-doc-id''"
        "Some [\<lparr>tab_tabId = Some ''tab-1'',
           tab_content = Some [Paragraph [Some ''Hello world!'']]\<rparr>]" None "''Bye''"] n
    by (simp add: truthyString_def getFullDocumentText_def resolveId_def)
  with n show ?thesis by (simp add: resolveId_def)
qed

text \<open>
  Token processing only appends ranges, and none of them is a heading: the
  ranges after a call are the ranges before it followed by inline ranges.
\<close>

lemma ext_refl:
  "\<exists>new. snd (st::CompilerState) = snd st @ new \<and> (\<forall>r \<in> set new. fr_type r \<noteq> Heading)"
  by simp

lemma ext_append:
  "\<exists>new. snd (appendTokenText txt st) = snd st @ new \<and> (\<forall>r \<in> set new. fr_type r \<noteq> Heading)"
  by (simp add: appendTokenText_def)

lemma ext_push:
  assumes "\<exists>new. snd st' = snd st @ new \<and> (\<forall>r \<in> set new. fr_type r \<noteq> Heading)"
    and "ty \<noteq> Heading"
  shows "\<exists>new. snd (pushRange (inlineRange s e ty u) st') = snd st @ new
           \<and> (\<forall>r \<in> set new. fr_type r \<noteq> Heading)"
proof -
  from assms(1) obtain new where n: "snd st' = snd st @ new" "\<forall>r \<in> set new. fr_type r \<noteq> Heading"
    by blast
  have "snd (pushRange (inlineRange s e ty u) st') = snd st @ (new @ [inlineRange s e ty u])"
    by (simp add: pushRange_def n(1))
  moreover have "\<forall>r \<in> set (new @ [inlineRange s e ty u]). fr_type r \<noteq> Heading"
    using n(2) assms(2) by (simp add: inlineRange_def)
  ultimately show ?thesis by blast
qed

lemma ext_trans:
  assumes "\<exists>new. snd (st1::CompilerState) = snd st0 @ new \<and> (\<forall>r \<in> set new. fr_type r \<noteq> Heading)"
    and "\<exists>new. snd (st2::CompilerState) = snd st1 @ new \<and> (\<forall>r \<in> set new. fr_type r \<noteq> Heading)"
  shows "\<exists>new. snd st2 = snd st0 @ new \<and> (\<forall>r \<in> set new. fr_type r \<noteq> Heading)"
proof -
  from assms obtain a b where "snd st1 = snd st0 @ a" "\<forall>r \<in> set a. fr_type r \<noteq> Heading"
    "snd st2 = snd st1 @ b" "\<forall>r \<in> set b. fr_type r \<noteq> Heading" by blast
  then have "snd st2 = snd st0 @ (a @ b)" "\<forall>r \<in> set (a @ b). fr_type r \<noteq> Heading" by auto
  then show ?thesis by blast
qed

lemma processTokens_ranges:
  "\<exists>new. snd (processToken t st) = snd st @ new \<and> (\<forall>r \<in> set new. fr_type r \<noteq> Heading)"
  "\<exists>new. snd (processTokens ts st) = snd st @ new \<and> (\<forall>r \<in> set new. fr_type r \<noteq> Heading)"
proof (induction t st and ts st rule: processToken_processTokens.induct)
  case (1 st)
  show ?case by simp
next
  case (2 token rest st)
  from ext_trans[OF 2(1) 2(2)] show ?case by simp
next
  case (3 ty toks tx href st)
  define inner where
    "inner = (case toks of Some ts \<Rightarrow> processTokens ts st | None \<Rightarrow> appendTokenText tx st)"
  consider (plain) "ty = ''text'' \<or> ty = ''escape''"
    | (strong) "\<not> (ty = ''text'' \<or> ty = ''escape'')" "ty = ''strong''"
    | (em) "\<not> (ty = ''text'' \<or> ty = ''escape'')" "ty \<noteq> ''strong''" "ty = ''em''"
    | (code) "\<not> (ty = ''text'' \<or> ty = ''escape'')" "ty \<noteq> ''strong''" "ty \<noteq> ''em''"
        "ty = ''codespan''"
    | (link) "\<not> (ty = ''text'' \<or> ty = ''escape'')" "ty \<noteq> ''strong''" "ty \<noteq> ''em''"
        "ty \<noteq> ''codespan''" "ty = ''link''"
    | (other) "\<not> (ty = ''text'' \<or> ty = ''escape'')" "ty \<noteq> ''strong''" "ty \<noteq> ''em''"
        "ty \<noteq> ''codespan''" "ty \<noteq> ''link''"
    by argo
  then show ?case
  proof cases
    case plain
    have "\<exists>new. snd inner = snd st @ new \<and> (\<forall>r \<in> set new. fr_type r \<noteq> Heading)"
    proof (cases toks)
      case None
      then show ?thesis unfolding inner_def by (simp add: ext_append)
    next
      case (Some x2)
      from 3(1)[OF refl plain Some] Some show ?thesis unfolding inner_def by simp
    qed
    with plain show ?thesis by (simp add: inner_def)
  next
    case strong
    have "\<exists>new. snd inner = snd st @ new \<and> (\<forall>r \<in> set new. fr_type r \<noteq> Heading)"
    proof (cases toks)
      case None
      then show ?thesis unfolding inner_def by (simp add: ext_append)
    next
      case (Some x2)
      from 3(2)[OF refl strong Some] Some show ?thesis unfolding inner_def by simp
    qed
    from ext_push[OF this, of Bold] strong show ?thesis by (simp add: inner_def Let_def)
  next
    case em
    have "\<exists>new. snd inner = snd st @ new \<and> (\<forall>r \<in> set new. fr_type r \<noteq> Heading)"
    proof (cases toks)
      case None
      then show ?thesis unfolding inner_def by (simp add: ext_append)
    next
      case (Some x2)
      from 3(3)[OF refl em Some] Some show ?thesis unfolding inner_def by simp
    qed
    from ext_push[OF this, of Italic] em show ?thesis by (simp add: inner_def Let_def)
  next
    case code
    from ext_push[OF ext_append, of Code] code show ?thesis by (simp add: Let_def)
  next
    case link
    have "\<exists>new. snd inner = snd st @ new \<and> (\<forall>r \<in> set new. fr_type r \<noteq> Heading)"
    proof (cases toks)
      case None
      then show ?thesis unfolding inner_def by (simp add: ext_append)
    next
      case (Some x2)
      from 3(4)[OF refl link Some] Some show ?thesis unfolding inner_def by simp
    qed
    from ext_push[OF this, of Link] link show ?thesis by (simp add: inner_def Let_def)
  next
    case other
    show ?thesis
    proof (cases toks)
      case None
      show ?thesis
      proof (cases "case tx of Some t \<Rightarrow> t \<noteq> [] | None \<Rightarrow> False")
        case True
        with other None ext_append[of tx st] show ?thesis
          by (simp split: option.splits)
      next
        case False
        with other None show ?thesis by (simp split: option.splits)
      qed
    next
      case (Some x2)
      with other 3(5)[OF refl other Some] show ?thesis by simp
    qed
  qed
qed


text \<open>
  The heading ranges of the compiler carry a level from 1 to 6 and the
  paragraph mark.
\<close>

lemma headingMatch_SomeD:
  assumes "headingMatch line = Some (k, c)"
  shows "1 \<le> k \<and> k \<le> 6"
proof -
  from assms obtain kj where f: "List.find (headingCandidate line)
          (concat (map (\<lambda>k. map (\<lambda>j. (k, j)) (rev [1 ..< Suc (length line)]))
                       (rev [1 ..< 7]))) = Some kj" and k: "fst kj = k"
    unfolding headingMatch_def by (auto simp: case_prod_unfold)
  from f have "kj \<in> set (concat (map (\<lambda>k. map (\<lambda>j. (k, j)) (rev [1 ..< Suc (length line)]))
                       (rev [1 ..< 7])))"
    by (metis find_Some_iff nth_mem)
  then have "fst kj \<in> set [1 ..< 7]" by (auto simp del: upt_Suc)
  with k show ?thesis by auto
qed

lemma processLine_headings:
  assumes "\<forall>r \<in> set (snd st). fr_type r = Heading \<longrightarrow>
             (\<exists>l. headingLevel r = Some l \<and> 1 \<le> l \<and> l \<le> 6) \<and> isParagraph r = Some True"
  shows "\<forall>r \<in> set (snd (processLine inl line st)). fr_type r = Heading \<longrightarrow>
             (\<exists>l. headingLevel r = Some l \<and> 1 \<le> l \<and> l \<le> 6) \<and> isParagraph r = Some True"
proof (cases "headingMatch line")
  case None
  from processTokens_ranges(2)[of "inl line" st] obtain new where
    "snd (processTokens (inl line) st) = snd st @ new" "\<forall>r \<in> set new. fr_type r \<noteq> Heading"
    by blast
  with assms None show ?thesis by (auto simp: processLine_def)
next
  case (Some kc)
  obtain k c where kc: "kc = (k, c)" by (cases kc)
  from headingMatch_SomeD[of line k c] Some kc have lv: "1 \<le> k \<and> k \<le> 6" by simp
  from processTokens_ranges(2)[of "inl c" st] obtain new where
    "snd (processTokens (inl c) st) = snd st @ new" "\<forall>r \<in> set new. fr_type r \<noteq> Heading"
    by blast
  with assms Some kc lv show ?thesis
    by (auto simp: processLine_def Let_def pushRange_def headingRange_def)
qed

lemma processLines_headings:
  assumes "\<forall>r \<in> set (snd st). fr_type r = Heading \<longrightarrow>
             (\<exists>l. headingLevel r = Some l \<and> 1 \<le> l \<and> l \<le> 6) \<and> isParagraph r = Some True"
  shows "\<forall>r \<in> set (snd (processLines inl ls st)). fr_type r = Heading \<longrightarrow>
             (\<exists>l. headingLevel r = Some l \<and> 1 \<le> l \<and> l \<le> 6) \<and> isParagraph r = Some True"
  using assms
proof (induction ls arbitrary: st)
  case Nil
  then show ?case by simp
next
  case (Cons line rest)
  note h = processLine_headings[OF Cons.prems, of inl line]
  show ?case
  proof (cases "rest = []")
    case True
    with h show ?thesis by (simp add: Let_def)
  next
    case False
    have "\<forall>r \<in> set (snd (fst (processLine inl line st) @ [CHR 0x0A], snd (processLine inl line st))).
            fr_type r = Heading \<longrightarrow>
             (\<exists>l. headingLevel r = Some l \<and> 1 \<le> l \<and> l \<le> 6) \<and> isParagraph r = Some True"
      using h by simp
    from Cons.IH[OF this] False show ?thesis by (simp add: Let_def)
  qed
qed

lemma compileRanges_headings:
  assumes "r \<in> set (snd (compileRanges inl markdown))" "fr_type r = Heading"
  shows "(\<exists>l. headingLevel r = Some l \<and> 1 \<le> l \<and> l \<le> 6) \<and> isParagraph r = Some True"
  using processLines_headings[of "([], [])" inl "splitLines markdown"] assms
  unfolding compileRanges_def by simp

lemma lowerRanges_concat:
  "lowerRanges startIdx ranges = concat (map (rangeRequests startIdx) ranges)"
  by (induction ranges) simp_all

lemma rangeRequests_heading:
  assumes "fr_type r = Heading" "headingLevel r = Some l" "1 \<le> l" "isParagraph r = Some True"
  shows "rangeRequests startIdx r = [paragraphStyleRequest startIdx r l]"
  using assms by (simp add: rangeRequests_def truthyNumber_def)

lemma rangeRequests_nonheading:
  assumes "fr_type r \<noteq> Heading"
  shows "\<forall>q \<in> set (rangeRequests startIdx r). updateParagraphStyle q = None"
  using assms by (simp add: rangeRequests_def textStyleRequests_def emptyRequest_def)


lemma lowerRanges_paragraph_count:
  assumes "\<forall>r \<in> set ranges. fr_type r = Heading \<longrightarrow>
             (\<exists>l. headingLevel r = Some l \<and> 1 \<le> l \<and> l \<le> 6) \<and> isParagraph r = Some True"
  shows "length (filter (\<lambda>q. updateParagraphStyle q \<noteq> None) (lowerRanges startIdx ranges))
           = length (filter (\<lambda>r. fr_type r = Heading) ranges)"
  using assms
proof (induction ranges)
  case Nil
  then show ?case by simp
next
  case (Cons r ranges)
  show ?case
  proof (cases "fr_type r = Heading")
    case True
    with Cons.prems obtain l where "headingLevel r = Some l" "1 \<le> l" "isParagraph r = Some True"
      by auto
    from rangeRequests_heading[OF True this, of startIdx] True Cons show ?thesis
      by (simp add: paragraphStyleRequest_def emptyRequest_def)
  next
    case False
    from rangeRequests_nonheading[OF False, of startIdx]
    have "filter (\<lambda>q. updateParagraphStyle q \<noteq> None) (rangeRequests startIdx r) = []"
      by (simp add: filter_empty_conv)
    with False Cons show ?thesis by simp
  qed
qed

lemma headingStyleName_levels:
  assumes "1 \<le> l" "l \<le> 6"
  shows "headingStyleName l =
    [''HEADING_1'', ''HEADING_2'', ''HEADING_3'', ''HEADING_4'', ''HEADING_5'', ''HEADING_6'']
      ! (l - 1)"
proof -
  from assms have "l = 1 \<or> l = 2 \<or> l = 3 \<or> l = 4 \<or> l = 5 \<or> l = 6" by arith
  then show ?thesis by (auto simp: headingStyleName_def)
qed

text \<open>
  Claim C6: every heading range that the compiler produces is lowered to
  exactly one request, an \<open>updateParagraphStyle\<close> over
  \<open>[startIndex + start, startIndex + end)\<close> with the named style of its
  level, and to no \<open>updateTextStyle\<close> request; the requests are the
  lowerings of the ranges in order, so the number of
  \<open>updateParagraphStyle\<close> requests is the number of heading ranges.
\<close>

theorem heading_range_becomes_one_paragraph_style:
  "(r \<in> set (snd (compileRanges inl markdown)) \<and> fr_type r = Heading \<longrightarrow>
      (\<exists>level. headingLevel r = Some level \<and> 1 \<le> level \<and> level \<le> 6
         \<and> rangeRequests startIdx r =
             [emptyRequest\<lparr>updateParagraphStyle := Some
                \<lparr>namedStyleType = headingStyleName level,
                 ups_range = Some \<lparr>range_tabId = None,
                   startIndex = Some (startIdx + int (fr_start r)),
                   endIndex = Some (startIdx + int (fr_end r))\<rparr>,
                 ups_fields = ''namedStyleType''\<rparr>\<rparr>]
         \<and> headingStyleName level =
             [''HEADING_1'', ''HEADING_2'', ''HEADING_3'', ''HEADING_4'', ''HEADING_5'',
              ''HEADING_6''] ! (level - 1)
         \<and> (\<forall>q \<in> set (rangeRequests startIdx r). updateTextStyle q = None)))
   \<and> formattingRequests (parseMarkdownToDocsRequests inl markdown startIdx)
       = concat (map (rangeRequests startIdx) (snd (compileRanges inl markdown)))
   \<and> length (filter (\<lambda>q. updateParagraphStyle q \<noteq> None)
              (formattingRequests (parseMarkdownToDocsRequests inl markdown startIdx)))
       = length (filter (\<lambda>r. fr_type r = Heading) (snd (compileRanges inl markdown)))"
proof (intro conjI impI)
  assume a: "r \<in> set (snd (compileRanges inl markdown)) \<and> fr_type r = Heading"
  with compileRanges_headings[of r inl markdown] obtain l where
    l: "headingLevel r = Some l" "1 \<le> l" "l \<le> 6" "isParagraph r = Some True"
    by blast
  from a have h: "fr_type r = Heading" by simp
  have rr: "rangeRequests startIdx r = [paragraphStyleRequest startIdx r l]"
    by (rule rangeRequests_heading[OF h l(1) l(2) l(4)])
  have "rangeRequests startIdx r =
             [emptyRequest\<lparr>updateParagraphStyle := Some
                \<lparr>namedStyleType = headingStyleName l,
                 ups_range = Some \<lparr>range_tabId = None,
                   startIndex = Some (startIdx + int (fr_start r)),
                   endIndex = Some (startIdx + int (fr_end r))\<rparr>,
                 ups_fields = ''namedStyleType''\<rparr>\<rparr>]"
    using rr by (simp add: paragraphStyleRequest_def)
  moreover have "\<forall>q \<in> set (rangeRequests startIdx r). updateTextStyle q = None"
    using rr by (simp add: paragraphStyleRequest_def emptyRequest_def)
  ultimately show "\<exists>level. headingLevel r = Some level \<and> 1 \<le> level \<and> level \<le> 6
         \<and> rangeRequests startIdx r =
             [emptyRequest\<lparr>updateParagraphStyle := Some
                \<lparr>namedStyleType = headingStyleName level,
                 ups_range = Some \<lparr>range_tabId = None,
                   startIndex = Some (startIdx + int (fr_start r)),
                   endIndex = Some (startIdx + int (fr_end r))\<rparr>,
                 ups_fields = ''namedStyleType''\<rparr>\<rparr>]
         \<and> headingStyleName level =
             [''HEADING_1'', ''HEADING_2'', ''HEADING_3'', ''HEADING_4'', ''HEADING_5'',
              ''HEADING_6''] ! (level - 1)
         \<and> (\<forall>q \<in> set (rangeRequests startIdx r). updateTextStyle q = None)"
    using l headingStyleName_levels[OF l(2) l(3)] by blast
next
  show "formattingRequests (parseMarkdownToDocsRequests inl markdown startIdx)
       = concat (map (rangeRequests startIdx) (snd (compileRanges inl markdown)))"
    by (simp add: parseMarkdownToDocsRequests_def Let_def lowerRanges_concat)
next
  have "\<forall>r \<in> set (snd (compileRanges inl markdown)). fr_type r = Heading \<longrightarrow>
             (\<exists>l. headingLevel r = Some l \<and> 1 \<le> l \<and> l \<le> 6) \<and> isParagraph r = Some True"
    using compileRanges_headings by blast
  from lowerRanges_paragraph_count[OF this, of startIdx]
  show "length (filter (\<lambda>q. updateParagraphStyle q \<noteq> None)
              (formattingRequests (parseMarkdownToDocsRequests inl markdown startIdx)))
       = length (filter (\<lambda>r. fr_type r = Heading) (snd (compileRanges inl markdown)))"
    by (simp add: parseMarkdownToDocsRequests_def Let_def)
qed

theorem heading_range_becomes_one_paragraph_style_witness:
  "headingRange 0 5 1 \<in> set (snd (compileRanges (\<lambda>s. [Token ''text'' None (Some s) None]) ''# Title''))
   \<and> fr_type (headingRange 0 5 1) = Heading
   \<and> rangeRequests 1 (headingRange 0 5 1) =
       [emptyRequest\<lparr>updateParagraphStyle := Some
          \<lparr>namedStyleType = ''HEADING_1'',
           ups_range = Some \<lparr>range_tabId = None, startIndex = Some 1, endIndex = Some 6\<rparr>,
           ups_fields = ''namedStyleType''\<rparr>\<rparr>]"
proof -
  have c: "snd (compileRanges (\<lambda>s. [Token ''text'' None (Some s) None]) ''# Title'')
             = [headingRange 0 5 1]"
    by code_simp
  then have m: "headingRange 0 5 1 \<in> set (snd (compileRanges (\<lambda>s. [Token ''text'' None (Some s) None]) ''# Title''))"
    by simp
  have h: "fr_type (headingRange 0 5 1) = Heading" by (simp add: headingRange_def)
  from heading_range_becomes_one_paragraph_style[of "headingRange 0 5 1"
      "\<lambda>s. [Token ''text'' None (Some s) None]" "''# Title''" 1] m h
  obtain level where "headingLevel (headingRange 0 5 1) = Some level"
    "rangeRequests 1 (headingRange 0 5 1) =
             [emptyRequest\<lparr>updateParagraphStyle := Some
                \<lparr>namedStyleType = headingStyleName level,
                 ups_range = Some \<lparr>range_tabId = None,
                   startIndex = Some (1 + int (fr_start (headingRange 0 5 1))),
                   endIndex = Some (1 + int (fr_end (headingRange 0 5 1)))\<rparr>,
                 ups_fields = ''namedStyleType''\<rparr>\<rparr>]"
    by blast
  then have "rangeRequests 1 (headingRange 0 5 1) =
       [emptyRequest\<lparr>updateParagraphStyle := Some
          \<lparr>namedStyleType = ''HEADING_1'',
           ups_range = Some \<lparr>range_tabId = None, startIndex = Some 1, endIndex = Some 6\<rparr>,
           ups_fields = ''namedStyleType''\<rparr>\<rparr>]"
    by (simp add: headingRange_def headingStyleName_def)
  with m h show ?thesis by blast
qed


text \<open>
  A line that starts with seven hashes: whatever the number of hashes taken
  for group 1, the next character is a hash and not white space.
\<close>

lemma splitLines_single: "CHR 0x0A \<notin> set s \<Longrightarrow> splitLines s = [s]"
  by (induction s) auto

lemma seven_hashes_no_candidate:
  assumes "1 \<le> k" "k \<le> 6" "1 \<le> j"
  shows "\<not> headingCandidate (''#######'' @ rest) (k, j)"
proof -
  from assms have "k = 1 \<or> k = 2 \<or> k = 3 \<or> k = 4 \<or> k = 5 \<or> k = 6" by arith
  moreover from assms obtain j' where "j = Suc j'" by (cases j) auto
  ultimately show ?thesis
    by (auto simp: headingCandidate_def isWhiteSpace_def)
qed

lemma headingMatch_seven_hashes: "headingMatch (''#######'' @ rest) = None"
proof -
  have "List.find (headingCandidate (''#######'' @ rest))
          (concat (map (\<lambda>k. map (\<lambda>j. (k, j)) (rev [1 ..< Suc (length (''#######'' @ rest))]))
                       (rev [1 ..< 7]))) = None"
    unfolding find_None_iff
  proof (intro notI, elim exE conjE)
    fix kj
    assume m: "kj \<in> set (concat (map (\<lambda>k. map (\<lambda>j. (k, j))
                  (rev [1 ..< Suc (length (''#######'' @ rest))])) (rev [1 ..< 7])))"
      and c: "headingCandidate (''#######'' @ rest) kj"
    from m have "1 \<le> fst kj \<and> fst kj \<le> 6 \<and> 1 \<le> snd kj" by (auto simp del: upt_Suc)
    with seven_hashes_no_candidate[of "fst kj" "snd kj" rest] c show False by simp
  qed
  then show ?thesis unfolding headingMatch_def by simp
qed

lemma lowerRanges_nonheading:
  assumes "\<forall>r \<in> set ranges. fr_type r \<noteq> Heading"
  shows "\<forall>q \<in> set (lowerRanges startIdx ranges). updateParagraphStyle q = None"
  using assms rangeRequests_nonheading by (induction ranges) auto

text \<open>
  Claim C7: a line that begins with seven hashes is not matched by the
  heading pattern; it is processed as inline content (the tokens of the
  whole line), which adds no heading range, and a markdown text that
  consists of this line alone yields no \<open>updateParagraphStyle\<close> request.
\<close>

theorem seven_hashes_is_inline_only:
  "headingMatch (''#######'' @ rest) = None
   \<and> processLine inl (''#######'' @ rest) st = processTokens (inl (''#######'' @ rest)) st
   \<and> (\<forall>r \<in> set (drop (length (snd st)) (snd (processLine inl (''#######'' @ rest) st))).
         fr_type r \<noteq> Heading)
   \<and> (CHR 0x0A \<notin> set rest \<longrightarrow>
        compileRanges inl (''#######'' @ rest)
          = processTokens (inl (''#######'' @ rest)) ([], [])
        \<and> (\<forall>q \<in> set (formattingRequests
                (parseMarkdownToDocsRequests inl (''#######'' @ rest) startIdx)).
             updateParagraphStyle q = None))"
proof -
  have m: "headingMatch (''#######'' @ rest) = None" by (rule headingMatch_seven_hashes)
  have t: "trimNonEmpty (''#######'' @ rest)"
    by (simp add: trimNonEmpty_def isWhiteSpace_def)
  have p: "processLine inl (''#######'' @ rest) st = processTokens (inl (''#######'' @ rest)) st"
    using m t by (simp add: processLine_def)
  from processTokens_ranges(2)[of "inl (''#######'' @ rest)" st] obtain new where
    n: "snd (processTokens (inl (''#######'' @ rest)) st) = snd st @ new"
       "\<forall>r \<in> set new. fr_type r \<noteq> Heading" by blast
  have d: "\<forall>r \<in> set (drop (length (snd st)) (snd (processLine inl (''#######'' @ rest) st))).
         fr_type r \<noteq> Heading"
    unfolding p n(1) using n(2) by simp
  have one: "compileRanges inl (''#######'' @ rest)
          = processTokens (inl (''#######'' @ rest)) ([], [])
        \<and> (\<forall>q \<in> set (formattingRequests
                (parseMarkdownToDocsRequests inl (''#######'' @ rest) startIdx)).
             updateParagraphStyle q = None)" if nl: "CHR 0x0A \<notin> set rest"
  proof -
    from nl have "CHR 0x0A \<notin> set (''#######'' @ rest)" by simp
    then have s: "splitLines (''#######'' @ rest) = [''#######'' @ rest]"
      by (rule splitLines_single)
    have c: "compileRanges inl (''#######'' @ rest)
          = processTokens (inl (''#######'' @ rest)) ([], [])"
      unfolding compileRanges_def s using m t by (simp add: processLine_def)
    from processTokens_ranges(2)[of "inl (''#######'' @ rest)" "([], [])"]
    have "\<forall>r \<in> set (snd (compileRanges inl (''#######'' @ rest))). fr_type r \<noteq> Heading"
      unfolding c by auto
    from lowerRanges_nonheading[OF this, of startIdx] c show ?thesis
      by (simp add: parseMarkdownToDocsRequests_def Let_def)
  qed
  from m p d one show ?thesis by blast
qed

theorem seven_hashes_is_inline_only_witness:
  "CHR 0x0A \<notin> set '' too many hashes''
   \<and> compileRanges (\<lambda>s. [Token ''text'' None (Some s) None]) ''####### too many hashes''
       = (''####### too many hashes'', [])
   \<and> formattingRequests (parseMarkdownToDocsRequests
        (\<lambda>s. [Token ''text'' None (Some s) None]) ''####### too many hashes'' 1) = []"
proof -
  have nl: "CHR 0x0A \<notin> set '' too many hashes''" by simp
  from seven_hashes_is_inline_only[of "'' too many hashes''"
      "\<lambda>s. [Token ''text'' None (Some s) None]" _ 1] nl
  have c: "compileRanges (\<lambda>s. [Token ''text'' None (Some s) None])
             (''#######'' @ '' too many hashes'')
           = processTokens [Token ''text'' None (Some (''#######'' @ '' too many hashes'')) None] ([], [])"
    by blast
  then have c': "compileRanges (\<lambda>s. [Token ''text'' None (Some s) None]) ''####### too many hashes''
       = (''####### too many hashes'', [])"
    by (simp add: appendTokenText_def)
  then have "formattingRequests (parseMarkdownToDocsRequests
        (\<lambda>s. [Token ''text'' None (Some s) None]) ''####### too many hashes'' 1) = []"
    by (simp add: parseMarkdownToDocsRequests_def)
  with nl c' show ?thesis by blast
qed

text \<open>
  \<open>processMarkdownLineBreaks\<close>: how it acts on runs of line feeds.
\<close>

lemma lineBreaks_Nil_iff: "processMarkdownLineBreaks xs = [] \<longleftrightarrow> xs = []"
  by (cases xs) auto

lemma lineBreaks_hd: "xs \<noteq> [] \<Longrightarrow> hd (processMarkdownLineBreaks xs) = hd xs"
  by (cases xs) auto

lemma lineBreaks_collapse:
  assumes "cs \<noteq> []" "hd cs = CHR 0x0A"
  shows "processMarkdownLineBreaks (CHR 0x0A # cs)
           = CHR 0x0A # CHR 0x0A
               # processMarkdownLineBreaks (dropWhile (\<lambda>x. x = CHR 0x0A) cs)"
  using assms by simp

lemma lineBreaks_copy:
  assumes "\<not> (c = CHR 0x0A \<and> cs \<noteq> [] \<and> hd cs = CHR 0x0A)"
  shows "processMarkdownLineBreaks (c # cs) = c # processMarkdownLineBreaks cs"
  using assms by auto

lemma lineBreaks_no_newline:
  "CHR 0x0A \<notin> set xs \<Longrightarrow> processMarkdownLineBreaks xs = xs"
proof (induction xs)
  case Nil
  then show ?case by simp
next
  case (Cons a xs)
  then have "a \<noteq> CHR 0x0A" "processMarkdownLineBreaks xs = xs" by auto
  then show ?case by (simp add: lineBreaks_copy)
qed

lemma dropWhile_lineBreaks:
  assumes "rest = [] \<or> hd rest \<noteq> CHR 0x0A"
  shows "dropWhile (\<lambda>x. x = CHR 0x0A) (processMarkdownLineBreaks rest)
           = processMarkdownLineBreaks rest"
proof (cases rest)
  case Nil
  then show ?thesis by simp
next
  case (Cons r rs)
  with assms have r: "r \<noteq> CHR 0x0A" by simp
  then have "processMarkdownLineBreaks (r # rs) = r # processMarkdownLineBreaks rs"
    by (simp add: lineBreaks_copy)
  with r Cons show ?thesis by simp
qed

lemma lineBreaks_idem:
  "processMarkdownLineBreaks (processMarkdownLineBreaks t) = processMarkdownLineBreaks t"
proof (induction t rule: processMarkdownLineBreaks.induct)
  case 1
  then show ?case by simp
next
  case (2 c cs)
  show ?case
  proof (cases "c = CHR 0x0A \<and> cs \<noteq> [] \<and> hd cs = CHR 0x0A")
    case True
    define rest where "rest = dropWhile (\<lambda>x. x = CHR 0x0A) cs"
    have h: "rest = [] \<or> hd rest \<noteq> CHR 0x0A"
    proof (cases "rest = []")
      case True
      then show ?thesis by (rule disjI1)
    next
      case False
      then have "dropWhile (\<lambda>x. x = CHR 0x0A) cs \<noteq> []" unfolding rest_def .
      from hd_dropWhile[OF this] show ?thesis unfolding rest_def by (rule disjI2)
    qed
    have IH: "processMarkdownLineBreaks (processMarkdownLineBreaks rest)
                = processMarkdownLineBreaks rest"
      unfolding rest_def by (rule 2(1)[OF True])
    from True have cc: "c = CHR 0x0A" and cne: "cs \<noteq> []" and chd: "hd cs = CHR 0x0A"
      by simp_all
    have s1: "processMarkdownLineBreaks (c # cs)
                = CHR 0x0A # CHR 0x0A # processMarkdownLineBreaks rest"
      unfolding rest_def cc by (rule lineBreaks_collapse[OF cne chd])
    have s2: "processMarkdownLineBreaks (CHR 0x0A # CHR 0x0A # processMarkdownLineBreaks rest)
                = CHR 0x0A # CHR 0x0A # processMarkdownLineBreaks
                    (dropWhile (\<lambda>x. x = CHR 0x0A) (CHR 0x0A # processMarkdownLineBreaks rest))"
      by (rule lineBreaks_collapse) simp_all
    have s3: "dropWhile (\<lambda>x. x = CHR 0x0A) (CHR 0x0A # processMarkdownLineBreaks rest)
                = processMarkdownLineBreaks rest"
      using dropWhile_lineBreaks[OF h] by simp
    show ?thesis unfolding s1 s2 s3 IH by (rule refl)
  next
    case False
    have c1: "processMarkdownLineBreaks (c # cs) = c # processMarkdownLineBreaks cs"
      by (rule lineBreaks_copy[OF False])
    have "\<not> (c = CHR 0x0A \<and> processMarkdownLineBreaks cs \<noteq> []
                  \<and> hd (processMarkdownLineBreaks cs) = CHR 0x0A)"
    proof (cases cs)
      case Nil
      then show ?thesis by simp
    next
      case (Cons d ds)
      then have "hd (processMarkdownLineBreaks cs) = hd cs" "cs \<noteq> []"
        by (simp_all add: lineBreaks_hd)
      with False show ?thesis by simp
    qed
    from lineBreaks_copy[OF this] have c2:
      "processMarkdownLineBreaks (c # processMarkdownLineBreaks cs)
         = c # processMarkdownLineBreaks (processMarkdownLineBreaks cs)" .
    show ?thesis unfolding c1 c2 2(2)[OF False] by (rule refl)
  qed
qed

lemma lineBreaks_run:
  assumes "ys = [] \<or> hd ys \<noteq> CHR 0x0A"
  shows "processMarkdownLineBreaks (replicate n (CHR 0x0A) @ ys)
           = replicate (min n 2) (CHR 0x0A) @ processMarkdownLineBreaks ys"
proof -
  have dw: "dropWhile (\<lambda>x. x = CHR 0x0A) (replicate m (CHR 0x0A) @ ys) = ys" for m
  proof (induction m)
    case 0
    from assms show ?case by (cases ys) auto
  next
    case (Suc m)
    then show ?case by simp
  qed
  consider "n = 0" | "n = 1" | m where "n = Suc (Suc m)"
    by (cases n rule: nat.exhaust; cases "n - 1" rule: nat.exhaust) auto
  then show ?thesis
  proof cases
    case 1
    then show ?thesis by simp
  next
    case 2
    with assms show ?thesis by (cases ys) auto
  next
    case 3
    have "processMarkdownLineBreaks (CHR 0x0A # CHR 0x0A # replicate m (CHR 0x0A) @ ys)
            = [CHR 0x0A, CHR 0x0A] @ processMarkdownLineBreaks
                (dropWhile (\<lambda>x. x = CHR 0x0A) (replicate (Suc m) (CHR 0x0A) @ ys))"
      by simp
    with 3 show ?thesis unfolding dw by simp
  qed
qed

lemma lineBreaks_append:
  assumes "xs = [] \<or> last xs \<noteq> CHR 0x0A"
  shows "processMarkdownLineBreaks (xs @ zs)
           = processMarkdownLineBreaks xs @ processMarkdownLineBreaks zs"
  using assms
proof (induction xs rule: processMarkdownLineBreaks.induct)
  case 1
  then show ?case by simp
next
  case (2 c cs)
  show ?case
  proof (cases "c = CHR 0x0A \<and> cs \<noteq> [] \<and> hd cs = CHR 0x0A")
    case True
    with 2(3) have lc: "last cs \<noteq> CHR 0x0A" by simp
    with True have ex: "\<exists>x \<in> set cs. \<not> x = CHR 0x0A" by (metis last_in_set)
    then obtain x where "x \<in> set cs" "\<not> x = CHR 0x0A" by blast
    then have dw: "dropWhile (\<lambda>x. x = CHR 0x0A) (cs @ zs) = dropWhile (\<lambda>x. x = CHR 0x0A) cs @ zs"
      by (rule dropWhile_append1)
    from ex have ne: "dropWhile (\<lambda>x. x = CHR 0x0A) cs \<noteq> []" by (simp add: dropWhile_eq_Nil_conv)
    then have "last (dropWhile (\<lambda>x. x = CHR 0x0A) cs) = last cs"
      by (metis last_appendR takeWhile_dropWhile_id)
    with lc have "dropWhile (\<lambda>x. x = CHR 0x0A) cs = [] \<or>
        last (dropWhile (\<lambda>x. x = CHR 0x0A) cs) \<noteq> CHR 0x0A" by simp
    from 2(1)[OF True this] True dw show ?thesis by (simp add: hd_append)
  next
    case False
    show ?thesis
    proof (cases "cs = []")
      case True
      with 2(3) show ?thesis by simp
    next
      case ne: False
      with 2(3) have "cs = [] \<or> last cs \<noteq> CHR 0x0A" by simp
      from 2(2)[OF False this] False ne show ?thesis
        by (cases "c = CHR 0x0A") (simp_all add: hd_append)
    qed
  qed
qed

lemma lineBreaks_length: "length (processMarkdownLineBreaks t) \<le> length t"
proof (induction t rule: processMarkdownLineBreaks.induct)
  case 1
  then show ?case by simp
next
  case (2 c cs)
  show ?case
  proof (cases "c = CHR 0x0A \<and> cs \<noteq> [] \<and> hd cs = CHR 0x0A")
    case True
    then obtain cs' where cs: "cs = CHR 0x0A # cs'" by (cases cs) auto
    have "length (dropWhile (\<lambda>x. x = CHR 0x0A) cs) \<le> length cs'"
      unfolding cs by (simp add: length_dropWhile_le)
    with 2(1)[OF True] True cs show ?thesis by simp
  next
    case False
    with 2(2)[OF False] False show ?thesis by auto
  qed
qed



text \<open>
  Claim C9: \<open>processMarkdownLineBreaks\<close> turns a maximal run of \<open>n\<close> line
  feeds into \<open>min n 2\<close> line feeds (two for a run of two or more, the
  run itself otherwise) and copies every other character; it is idempotent
  and never lengthens the text. The text that \<open>insertText\<close> inserts can
  be shorter than the \<open>plainText\<close> of the compiler: for the markdown
  \<open>a\<close>, three line feeds, \<open>**b**\<close> the plain text has 5 characters and the
  bold range is requested over \<open>[5, 6)\<close>, while the inserted text has 4.
\<close>

theorem lineBreaks_collapse_runs:
  "((xs = [] \<or> last xs \<noteq> CHR 0x0A) \<and> (ys = [] \<or> hd ys \<noteq> CHR 0x0A) \<longrightarrow>
      processMarkdownLineBreaks (xs @ replicate n (CHR 0x0A) @ ys)
        = processMarkdownLineBreaks xs @ replicate (min n 2) (CHR 0x0A)
            @ processMarkdownLineBreaks ys)
   \<and> (CHR 0x0A \<notin> set zs \<longrightarrow> processMarkdownLineBreaks zs = zs)
   \<and> processMarkdownLineBreaks (processMarkdownLineBreaks t) = processMarkdownLineBreaks t
   \<and> length (processMarkdownLineBreaks t) \<le> length t
   \<and> plainText (parseMarkdownToDocsRequests
         (\<lambda>s. if s = ''**b**''
               then [Token ''strong'' (Some [Token ''text'' None (Some ''b'') None])
                       (Some ''b'') None]
               else [Token ''text'' None (Some s) None])
         (''a'' @ [CHR 0x0A, CHR 0x0A, CHR 0x0A] @ ''**b**'') 1)
       = ''a'' @ [CHR 0x0A, CHR 0x0A, CHR 0x0A] @ ''b''
   \<and> insertTextRequests
         (\<lambda>s. if s = ''**b**''
               then [Token ''strong'' (Some [Token ''text'' None (Some ''b'') None])
                       (Some ''b'') None]
               else [Token ''text'' None (Some s) None])
         (''a'' @ [CHR 0x0A, CHR 0x0A, CHR 0x0A] @ ''**b**'') None
       = [insertRequest None (''a'' @ [CHR 0x0A, CHR 0x0A] @ ''b'') 1,
          emptyRequest\<lparr>updateTextStyle := Some
            \<lparr>uts_range = Some \<lparr>range_tabId = None, startIndex = Some 5, endIndex = Some 6\<rparr>,
             textStyle = emptyTextStyle\<lparr>bold := Some True\<rparr>, uts_fields = ''bold''\<rparr>\<rparr>]"
proof -
  have a: "processMarkdownLineBreaks (xs @ replicate n (CHR 0x0A) @ ys)
        = processMarkdownLineBreaks xs @ replicate (min n 2) (CHR 0x0A)
            @ processMarkdownLineBreaks ys"
    if "xs = [] \<or> last xs \<noteq> CHR 0x0A" "ys = [] \<or> hd ys \<noteq> CHR 0x0A"
    using lineBreaks_append[OF that(1), of "replicate n (CHR 0x0A) @ ys"]
      lineBreaks_run[OF that(2), of n] by simp
  have b: "processMarkdownLineBreaks zs = zs" if "CHR 0x0A \<notin> set zs"
    using that by (rule lineBreaks_no_newline)
  have c: "plainText (parseMarkdownToDocsRequests
         (\<lambda>s. if s = ''**b**''
               then [Token ''strong'' (Some [Token ''text'' None (Some ''b'') None])
                       (Some ''b'') None]
               else [Token ''text'' None (Some s) None])
         (''a'' @ [CHR 0x0A, CHR 0x0A, CHR 0x0A] @ ''**b**'') 1)
       = ''a'' @ [CHR 0x0A, CHR 0x0A, CHR 0x0A] @ ''b''"
    by code_simp
  have d: "insertTextRequests
         (\<lambda>s. if s = ''**b**''
               then [Token ''strong'' (Some [Token ''text'' None (Some ''b'') None])
                       (Some ''b'') None]
               else [Token ''text'' None (Some s) None])
         (''a'' @ [CHR 0x0A, CHR 0x0A, CHR 0x0A] @ ''**b**'') None
       = [insertRequest None (''a'' @ [CHR 0x0A, CHR 0x0A] @ ''b'') 1,
          emptyRequest\<lparr>updateTextStyle := Some
            \<lparr>uts_range = Some \<lparr>range_tabId = None, startIndex = Some 5, endIndex = Some 6\<rparr>,
             textStyle = emptyTextStyle\<lparr>bold := Some True\<rparr>, uts_fields = ''bold''\<rparr>\<rparr>]"
    by code_simp
  from a b c d lineBreaks_idem[of t] lineBreaks_length[of t] show ?thesis by blast
qed

theorem lineBreaks_collapse_runs_witness:
  "(''a'' = [] \<or> last ''a'' \<noteq> CHR 0x0A) \<and> (''b'' = [] \<or> hd ''b'' \<noteq> CHR 0x0A)
   \<and> CHR 0x0A \<notin> set ''a''
   \<and> processMarkdownLineBreaks (''a'' @ replicate 3 (CHR 0x0A) @ ''b'')
       = ''a'' @ [CHR 0x0A, CHR 0x0A] @ ''b''"
proof -
  have h: "(''a'' = [] \<or> last ''a'' \<noteq> CHR 0x0A) \<and> (''b'' = [] \<or> hd ''b'' \<noteq> CHR 0x0A)"
    by simp
  have n: "CHR 0x0A \<notin> set ''a''" "CHR 0x0A \<notin> set ''b''" by simp_all
  from lineBreaks_collapse_runs[of "''a''" "''b''" 3 "''a''"] h n(1)
  have 1: "processMarkdownLineBreaks (''a'' @ replicate 3 (CHR 0x0A) @ ''b'')
        = processMarkdownLineBreaks ''a'' @ replicate (min 3 2) (CHR 0x0A)
            @ processMarkdownLineBreaks ''b''"
    and 2: "processMarkdownLineBreaks ''a'' = ''a''"
    by blast+
  from lineBreaks_collapse_runs[of _ _ _ "''b''"] n(2)
  have 3: "processMarkdownLineBreaks ''b'' = ''b''" by blast
  have "replicate (min 3 2) (CHR 0x0A) = [CHR 0x0A, CHR 0x0A]"
    by (simp add: numeral_2_eq_2)
  with 1 2 3 have "processMarkdownLineBreaks (''a'' @ replicate 3 (CHR 0x0A) @ ''b'')
       = ''a'' @ [CHR 0x0A, CHR 0x0A] @ ''b''" by (simp only:)
  with h n(1) show ?thesis by blast
qed

text \<open>
  \<open>_addTabIdToFormattingRequests\<close> writes tab ids and nothing else.
\<close>

lemma withoutTabIds_addTabIdToRequest:
  "withoutTabIds (addTabIdToRequest t req) = withoutTabIds req"
  by (simp add: withoutTabIds_def addTabIdToRequest_def split: option.splits)

lemma addTabIdToRequest_deleteContentRange:
  "deleteContentRange (addTabIdToRequest t req) = deleteContentRange req"
  by (simp add: addTabIdToRequest_def)

text \<open>
  Claim C10: \<open>_addTabIdToFormattingRequests\<close> returns the request list
  unchanged when no tab id is supplied (and when the tab id is the empty
  string); for every tab id the result has the length of the input and each
  request agrees with the input request once the tab ids of
  \<open>updateTextStyle.range\<close>, \<open>updateParagraphStyle.range\<close> and
  \<open>insertText.location\<close> are blanked on both sides: every other field,
  \<open>deleteContentRange\<close> included, is preserved.
\<close>

theorem addTabId_changes_tab_ids_only:
  "addTabIdToFormattingRequests requests None = requests
   \<and> addTabIdToFormattingRequests requests (Some []) = requests
   \<and> length (addTabIdToFormattingRequests requests tabId) = length requests
   \<and> map withoutTabIds (addTabIdToFormattingRequests requests tabId)
       = map withoutTabIds requests
   \<and> map deleteContentRange (addTabIdToFormattingRequests requests tabId)
       = map deleteContentRange requests"
  by (simp add: addTabIdToFormattingRequests_def truthyString_def
        withoutTabIds_addTabIdToRequest addTabIdToRequest_deleteContentRange)

theorem addTabId_changes_tab_ids_only_witness:
  "truthyString (Some ''tab-1'')
   \<and> addTabIdToFormattingRequests
        [paragraphStyleRequest 1 (headingRange 0 5 1) 1, deleteRequest None ''x'' 1,
         insertRequest None ''Title'' 1] (Some ''tab-1'')
      = [emptyRequest\<lparr>updateParagraphStyle := Some
           \<lparr>namedStyleType = ''HEADING_1'',
            ups_range = Some \<lparr>range_tabId = Some ''tab-1'', startIndex = Some 1,
              endIndex = Some 6\<rparr>,
            ups_fields = ''namedStyleType''\<rparr>\<rparr>,
         deleteRequest None ''x'' 1,
         insertRequest (Some ''tab-1'') ''Title'' 1]
   \<and> map withoutTabIds (addTabIdToFormattingRequests
        [paragraphStyleRequest 1 (headingRange 0 5 1) 1, deleteRequest None ''x'' 1,
         insertRequest None ''Title'' 1] (Some ''tab-1''))
      = map withoutTabIds
        [paragraphStyleRequest 1 (headingRange 0 5 1) 1, deleteRequest None ''x'' 1,
         insertRequest None ''Title'' 1]"
proof -
  have t: "truthyString (Some ''tab-1'')" by (simp add: truthyString_def)
  have e: "addTabIdToFormattingRequests
        [paragraphStyleRequest 1 (headingRange 0 5 1) 1, deleteRequest None ''x'' 1,
         insertRequest None ''Title'' 1] (Some ''tab-1'')
      = [emptyRequest\<lparr>updateParagraphStyle := Some
           \<lparr>namedStyleType = ''HEADING_1'',
            ups_range = Some \<lparr>range_tabId = Some ''tab-1'', startIndex = Some 1,
              endIndex = Some 6\<rparr>,
            ups_fields = ''namedStyleType''\<rparr>\<rparr>,
         deleteRequest None ''x'' 1,
         insertRequest (Some ''tab-1'') ''Title'' 1]"
    by code_simp
  from addTabId_changes_tab_ids_only[of
      "[paragraphStyleRequest 1 (headingRange 0 5 1) 1, deleteRequest None ''x'' 1,
        insertRequest None ''Title'' 1]" "Some ''tab-1''"]
  have "map withoutTabIds (addTabIdToFormattingRequests
        [paragraphStyleRequest 1 (headingRange 0 5 1) 1, deleteRequest None ''x'' 1,
         insertRequest None ''Title'' 1] (Some ''tab-1''))
      = map withoutTabIds
        [paragraphStyleRequest 1 (headingRange 0 5 1) 1, deleteRequest None ''x'' 1,
         insertRequest None ''Title'' 1]"
    by blast
  with t e show ?thesis by blast
qed

text \<open>
  Claim C8, as amended: \<open>replaceAllText\<close> with an empty replacements map
  never calls \<open>batchUpdate\<close> and never returns the result of a batch; when
  the Slides client is obtained it returns the message
  \<open>No replacements provided.\<close>; when obtaining the client fails it returns
  the error envelope of that failure. The method awaits the client before it
  looks at the replacements, so the message is not returned for every call
  with an empty map.
\<close>

theorem replaceAllText_empty_map:
  "snd (replaceAllText env presentationId []) = []
   \<and> (getSlidesClient env = Inr u \<longrightarrow>
        fst (replaceAllText env presentationId []) = Message ''No replacements provided.'')
   \<and> (getSlidesClient env = Inl e \<longrightarrow>
        fst (replaceAllText env presentationId []) = ErrorJson e)
   \<and> fst (replaceAllText env presentationId []) \<noteq> RepliesJson replies"
  by (cases "getSlidesClient env") (simp_all add: replaceAllText_def Let_def)

theorem replaceAllText_empty_map_witness:
  "getSlidesClient \<lparr>slides_extractDocId = (\<lambda>d. None), getSlidesClient = Inr (),
      presentationsBatchUpdate = (\<lambda>d rs. Inl ''Update Error'')\<rparr> = Inr ()
   \<and> replaceAllText
     \<lparr>slides_extractDocId = (\<lambda>d. None), getSlidesClient = Inr (),
      presentationsBatchUpdate = (\<lambda>d rs. Inl ''Update Error'')\<rparr> ''pres-id'' []
   = (Message ''No replacements provided.'', [])"
proof -
  let ?env = "\<lparr>slides_extractDocId = (\<lambda>d. None), getSlidesClient = Inr (),
      presentationsBatchUpdate = (\<lambda>d rs. Inl ''Update Error'')\<rparr>"
  have c: "getSlidesClient ?env = Inr ()" by simp
  from replaceAllText_empty_map[of ?env "''pres-id''" "()"] c
  have "snd (replaceAllText ?env ''pres-id'' []) = []"
    "fst (replaceAllText ?env ''pres-id'' []) = Message ''No replacements provided.''"
    by blast+
  then have "replaceAllText ?env ''pres-id'' [] = (Message ''No replacements provided.'', [])"
    by (simp add: prod_eq_iff)
  with c show ?thesis by blast
qed

text \<open>
  The unamended statement fails: with an empty replacements map and a Slides
  client that cannot be obtained, the result is the error envelope and not
  the message.
\<close>

theorem replaceAllText_empty_map_counterexample:
  "replaceAllText
     \<lparr>slides_extractDocId = (\<lambda>d. None), getSlidesClient = Inl ''No credentials'',
      presentationsBatchUpdate = (\<lambda>d rs. Inr ''[]'')\<rparr> ''pres-id'' []
     = (ErrorJson ''No credentials'', [])
   \<and> fst (replaceAllText
     \<lparr>slides_extractDocId = (\<lambda>d. None), getSlidesClient = Inl ''No credentials'',
      presentationsBatchUpdate = (\<lambda>d rs. Inr ''[]'')\<rparr> ''pres-id'' [])
     \<noteq> Message ''No replacements provided.''"
  by (simp add: replaceAllText_def)

text \<open>
  The merge rule of the Auth Manager.
\<close>

lemma mergeCredentials_refresh_token:
  "mergeCredentials previous new ''refresh_token''
     = (if isDefined (new ''refresh_token'') then new ''refresh_token''
        else previous ''refresh_token'')"
  by (auto simp: mergeCredentials_def isDefined_def map_add_def split: option.splits JsValue.splits)

lemma mergeCredentials_other:
  "k \<noteq> ''refresh_token'' \<Longrightarrow> new k = Some v \<Longrightarrow> mergeCredentials previous new k = Some v"
  by (simp add: mergeCredentials_def map_add_def)

text \<open>
  Claim C1: in a merged credential \<open>refresh_token\<close> is the one of the new
  token set when that is defined and the previous one otherwise; every other
  field that the new token set has takes the new value. The token-update
  listener, the manual \<open>refreshToken\<close> and the proactive refresh of
  \<open>getAuthenticatedClient\<close> all persist, and keep as last known
  credential, this merge of the last known credential with the new tokens.
\<close>

theorem merge_keeps_refresh_token:
  "mergeCredentials previous new ''refresh_token''
     = (if isDefined (new ''refresh_token'') then new ''refresh_token''
        else previous ''refresh_token'')
   \<and> (k \<noteq> ''refresh_token'' \<and> new k = Some v \<longrightarrow> mergeCredentials previous new k = Some v)
   \<and> storedCredential (tokensListener session new)
       = Some (mergeCredentials (lastKnownCredential session) new)
   \<and> lastKnownCredential (tokensListener session new)
       = mergeCredentials (lastKnownCredential session) new
   \<and> (refreshToken session endpointResult = Inr session' \<longrightarrow>
        (\<exists>fresh. endpointResult = Inr fresh
           \<and> storedCredential session' = Some (mergeCredentials (lastKnownCredential session) fresh)
           \<and> lastKnownCredential session' = mergeCredentials (lastKnownCredential session) fresh))
   \<and> (getAuthenticatedClient True session endpointResult = Inr session' \<longrightarrow>
        (\<exists>fresh. endpointResult = Inr fresh
           \<and> storedCredential session' = Some (mergeCredentials (lastKnownCredential session) fresh)
           \<and> lastKnownCredential session' = mergeCredentials (lastKnownCredential session) fresh))"
proof -
  have r: "\<exists>fresh. endpointResult = Inr fresh
           \<and> storedCredential session' = Some (mergeCredentials (lastKnownCredential session) fresh)
           \<and> lastKnownCredential session' = mergeCredentials (lastKnownCredential session) fresh"
    if "refreshToken session endpointResult = Inr session'"
    using that
    by (cases endpointResult)
       (auto simp: refreshToken_def applyTokenUpdate_def Let_def split: if_splits)
  have l: "storedCredential (tokensListener session new)
       = Some (mergeCredentials (lastKnownCredential session) new)"
    "lastKnownCredential (tokensListener session new)
       = mergeCredentials (lastKnownCredential session) new"
    by (simp_all add: tokensListener_def applyTokenUpdate_def Let_def)
  show ?thesis
    using mergeCredentials_refresh_token[of previous new] mergeCredentials_other[of k new v previous]
      l r by (simp add: getAuthenticatedClient_def)
qed


theorem merge_keeps_refresh_token_witness:
  "''access_token'' \<noteq> ''refresh_token''
   \<and> [''access_token'' \<mapsto> Str ''new_token'', ''expiry_date'' \<mapsto> Num 123456789]
        ''access_token'' = Some (Str ''new_token'')
   \<and> refreshToken
        \<lparr>lastKnownCredential = [''access_token'' \<mapsto> Str ''old_token'',
            ''refresh_token'' \<mapsto> Str ''old_refresh'', ''scope'' \<mapsto> Str ''scope1''],
         storedCredential = None\<rparr>
        (Inr [''access_token'' \<mapsto> Str ''new_token'', ''expiry_date'' \<mapsto> Num 123456789])
      = Inr (applyTokenUpdate
          \<lparr>lastKnownCredential = [''access_token'' \<mapsto> Str ''old_token'',
            ''refresh_token'' \<mapsto> Str ''old_refresh'', ''scope'' \<mapsto> Str ''scope1''],
           storedCredential = None\<rparr>
          [''access_token'' \<mapsto> Str ''new_token'', ''expiry_date'' \<mapsto> Num 123456789])
   \<and> map_option (\<lambda>c. (c ''access_token'', c ''refresh_token'', c ''expiry_date''))
        (storedCredential (applyTokenUpdate
          \<lparr>lastKnownCredential = [''access_token'' \<mapsto> Str ''old_token'',
            ''refresh_token'' \<mapsto> Str ''old_refresh'', ''scope'' \<mapsto> Str ''scope1''],
           storedCredential = None\<rparr>
          [''access_token'' \<mapsto> Str ''new_token'', ''expiry_date'' \<mapsto> Num 123456789]))
      = Some (Some (Str ''new_token''), Some (Str ''old_refresh''), Some (Num 123456789))"
proof -
  let ?old = "[''access_token'' \<mapsto> Str ''old_token'',
            ''refresh_token'' \<mapsto> Str ''old_refresh'', ''scope'' \<mapsto> Str ''scope1'']"
  let ?new = "[''access_token'' \<mapsto> Str ''new_token'', ''expiry_date'' \<mapsto> Num 123456789]"
  let ?session = "\<lparr>lastKnownCredential = ?old, storedCredential = None\<rparr>"
  have k: "''access_token'' \<noteq> ''refresh_token''" by simp
  have a: "?new ''access_token'' = Some (Str ''new_token'')" by simp
  have e: "?new ''expiry_date'' = Some (Num 123456789)" by simp
  have n: "\<not> isDefined (?new ''refresh_token'')" by (simp add: isDefined_def)
  have o: "?old ''refresh_token'' = Some (Str ''old_refresh'')" by simp
  have rf: "refreshToken ?session (Inr ?new) = Inr (applyTokenUpdate ?session ?new)"
    by (simp add: refreshToken_def isDefined_def)
  note t = merge_keeps_refresh_token[of ?old ?new _ _ ?session "Inr ?new"
      "applyTokenUpdate ?session ?new"]
  from t rf obtain fresh where f: "Inr ?new = (Inr fresh :: string + Credentials)"
    "storedCredential (applyTokenUpdate ?session ?new)
       = Some (mergeCredentials (lastKnownCredential ?session) fresh)"
    by blast
  from f(1) have fr: "fresh = ?new" by simp
  from merge_keeps_refresh_token[of ?old ?new "''access_token''" "Str ''new_token''"] k a
  have m1: "mergeCredentials ?old ?new ''access_token'' = Some (Str ''new_token'')" by blast
  from merge_keeps_refresh_token[of ?old ?new "''expiry_date''" "Num 123456789"] e
  have m2: "mergeCredentials ?old ?new ''expiry_date'' = Some (Num 123456789)" by simp
  from t n o have m3: "mergeCredentials ?old ?new ''refresh_token'' = Some (Str ''old_refresh'')"
    by simp
  have "map_option (\<lambda>c. (c ''access_token'', c ''refresh_token'', c ''expiry_date''))
        (storedCredential (applyTokenUpdate ?session ?new))
      = Some (Some (Str ''new_token''), Some (Str ''old_refresh''), Some (Num 123456789))"
    unfolding f(2) fr using m1 m2 m3 by simp
  with k a rf show ?thesis by blast
qed

end
